theory Spec2Isabelle
  imports Main "HOL-Library.AList"
begin

section \<open>The ticket manager of the support chat server\<close>

text \<open>
  The model follows the class \<open>TicketManager\<close> and the socket handlers of the entry
  service. JavaScript \<open>Map\<close>s are association lists in insertion order:
  \<open>map_of\<close> is \<open>get\<close>, \<open>AList.update\<close> is \<open>set\<close> (an existing key keeps its
  place, a new key goes to the end) and \<open>AList.delete\<close> is \<open>delete\<close>. A JavaScript
  \<open>Set\<close> is a list in insertion order without repetition. Objects are identified
  with their map entries: mutating a ticket through a reference is an update of the
  entry stored under the ticket's id.

  The clock and the random source are inputs: \<open>now\<close> is what \<open>Date.now()\<close> and
  \<open>new Date()\<close> read during the call (in milliseconds, one instant per call) and
  \<open>mid\<close> is what \<open>generateMessageId()\<close> yields for the stored message.

  A ticket id \<open>TicketId t c\<close> stands for the string \<open>TICKET-t-c\<close>; the two numbers
  are printed in decimal, so the string determines both.
\<close>

subsection \<open>Data\<close>

datatype ticketId = TicketId nat nat

fun counterOf :: "ticketId \<Rightarrow> nat" where
  "counterOf (TicketId t c) = c"

record message =
  msg_id :: string
  content :: string
  sender :: string
  senderId :: "string option"
  timestamp :: nat
  read :: bool

record ticket =
  ticket_id :: ticketId
  customerId :: string
  customerSocketId :: string
  status :: string
  priority :: string
  assignedAgent :: "string option"
  createdAt :: nat
  updatedAt :: nat
  messages :: "message list"
  info_connectedAt :: nat
  info_lastSeen :: nat
  closedAt :: "nat option"
  closedBy :: "string option"

record agent =
  agent_id :: string
  socketId :: string
  agent_name :: string
  department :: string
  agent_status :: string
  connectedAt :: nat
  lastActivity :: nat

record customer =
  cust_id :: string
  cust_connectedAt :: nat
  cust_lastActivity :: nat

record ticketManager =
  tickets :: "(ticketId \<times> ticket) list"
  customerSockets :: "(string \<times> customer) list"
  agentSockets :: "(string \<times> agent) list"
  ticketAssignments :: "(ticketId \<times> string) list"
  agentTickets :: "(string \<times> ticketId list) list"
  ticketCounter :: nat

record lastMessage =
  lm_content :: string
  lm_timestamp :: nat
  lm_sender :: string

record summary =
  s_id :: ticketId
  s_customerId :: string
  s_status :: string
  s_priority :: string
  s_createdAt :: nat
  s_updatedAt :: nat
  messageCount :: nat
  unreadCount :: nat
  s_lastMessage :: "lastMessage option"

record stats =
  totalTickets :: nat
  openTickets :: nat
  assignedTickets :: nat
  closedTickets :: nat
  activeAgents :: nat
  totalAgents :: nat
  activeCustomers :: nat

subsection \<open>JavaScript helpers\<close>

text \<open>Truthiness of a string that may be \<open>null\<close> or \<open>undefined\<close>: the empty string is falsy.\<close>

fun truthy :: "string option \<Rightarrow> bool" where
  "truthy None = False"
| "truthy (Some x) = (x \<noteq> [])"

text \<open>\<open>Set.prototype.add\<close> and \<open>Set.prototype.delete\<close>.\<close>

definition set_add :: "'a \<Rightarrow> 'a list \<Rightarrow> 'a list" where
  "set_add x xs = (if x \<in> set xs then xs else xs @ [x])"

definition set_delete :: "'a \<Rightarrow> 'a list \<Rightarrow> 'a list" where
  "set_delete x xs = removeAll x xs"

text \<open>\<open>["open", "assigned"].includes(status)\<close>.\<close>

definition isActive :: "string \<Rightarrow> bool" where
  "isActive st = (st = ''open'' \<or> st = ''assigned'')"

subsection \<open>TicketManager\<close>

definition newManager :: ticketManager where
  "newManager = \<lparr>tickets = [], customerSockets = [], agentSockets = [],
     ticketAssignments = [], agentTickets = [], ticketCounter = 1\<rparr>"

definition generateTicketId :: "nat \<Rightarrow> ticketManager \<Rightarrow> ticketId \<times> ticketManager" where
  "generateTicketId now m =
     (TicketId now (ticketCounter m), m\<lparr>ticketCounter := ticketCounter m + 1\<rparr>)"

definition createTicket ::
  "string \<Rightarrow> string \<Rightarrow> string option \<Rightarrow> nat \<Rightarrow> string \<Rightarrow> ticketManager \<Rightarrow> ticket \<times> ticketManager" where
  "createTicket cid csid initialMessage now mid m =
     (let (tid, m1) = generateTicketId now m;
          t = \<lparr>ticket_id = tid, customerId = cid, customerSocketId = csid,
               status = ''open'', priority = ''normal'', assignedAgent = None,
               createdAt = now, updatedAt = now,
               messages =
                 (case initialMessage of
                    Some text \<Rightarrow>
                      if truthy initialMessage
                      then [\<lparr>msg_id = mid, content = text, sender = ''customer'',
                              senderId = None, timestamp = now, read = False\<rparr>]
                      else []
                  | None \<Rightarrow> []),
               info_connectedAt = now, info_lastSeen = now,
               closedAt = None, closedBy = None\<rparr>
      in (t, m1\<lparr>tickets := AList.update tid t (tickets m1)\<rparr>))"

text \<open>\<open>this.agentTickets.get(a.id)?.size || 0\<close>\<close>

definition ticketCount :: "ticketManager \<Rightarrow> agent \<Rightarrow> nat" where
  "ticketCount m a =
     (case map_of (agentTickets m) (agent_id a) of None \<Rightarrow> 0 | Some ts \<Rightarrow> length ts)"

text \<open>
  \<open>Array.prototype.sort\<close> is stable, and so is \<open>sort_key\<close>: with the comparator
  \<open>aTicketCount - bTicketCount\<close> the result is the stable ascending order by count.
\<close>

definition getAvailableAgent :: "ticketManager \<Rightarrow> agent option" where
  "getAvailableAgent m =
     (case sort_key (ticketCount m)
             (filter (\<lambda>a. agent_status a = ''available'') (map snd (agentSockets m))) of
        [] \<Rightarrow> None
      | a # rest \<Rightarrow> Some a)"

definition assignTicket :: "ticketId \<Rightarrow> string \<Rightarrow> nat \<Rightarrow> ticketManager \<Rightarrow> bool \<times> ticketManager" where
  "assignTicket tid aid now m =
     (case map_of (tickets m) tid of
        None \<Rightarrow> (False, m)
      | Some t \<Rightarrow>
          (case map_of (agentSockets m) aid of
             None \<Rightarrow> (False, m)
           | Some a \<Rightarrow>
               (let t' = t\<lparr>assignedAgent := Some aid, status := ''assigned'', updatedAt := now\<rparr>;
                    m1 = m\<lparr>tickets := AList.update tid t' (tickets m),
                           ticketAssignments := AList.update tid aid (ticketAssignments m)\<rparr>;
                    m2 = (case map_of (agentTickets m1) aid of
                            None \<Rightarrow> m1\<lparr>agentTickets := AList.update aid [] (agentTickets m1)\<rparr>
                          | Some ts \<Rightarrow> m1);
                    m3 = (case map_of (agentTickets m2) aid of
                            None \<Rightarrow> m2
                          | Some ts \<Rightarrow>
                              m2\<lparr>agentTickets := AList.update aid (set_add tid ts) (agentTickets m2)\<rparr>)
                in (True, m3))))"

definition addMessage ::
  "ticketId \<Rightarrow> string \<Rightarrow> string \<Rightarrow> string option \<Rightarrow> nat \<Rightarrow> string \<Rightarrow> ticketManager
     \<Rightarrow> message option \<times> ticketManager" where
  "addMessage tid text sndr sid now mid m =
     (case map_of (tickets m) tid of
        None \<Rightarrow> (None, m)
      | Some t \<Rightarrow>
          (let msg = \<lparr>msg_id = mid, content = text, sender = sndr, senderId = sid,
                      timestamp = now, read = False\<rparr>;
               t' = t\<lparr>messages := messages t @ [msg], updatedAt := now\<rparr>
           in (Some msg, m\<lparr>tickets := AList.update tid t' (tickets m)\<rparr>)))"

definition getTicketByCustomer :: "string \<Rightarrow> ticketManager \<Rightarrow> ticket option" where
  "getTicketByCustomer csid m =
     map_option snd
       (find (\<lambda>(tid, t). customerSocketId t = csid \<and> isActive (status t)) (tickets m))"

definition getTicketSummary :: "ticket \<Rightarrow> summary" where
  "getTicketSummary t =
     \<lparr>s_id = ticket_id t, s_customerId = customerId t, s_status = status t,
      s_priority = priority t, s_createdAt = createdAt t, s_updatedAt = updatedAt t,
      messageCount = length (messages t),
      unreadCount = length (filter (\<lambda>msg. \<not> read msg \<and> sender msg = ''customer'') (messages t)),
      s_lastMessage =
        (case rev (messages t) of
           [] \<Rightarrow> None
         | l # earlier \<Rightarrow>
             Some \<lparr>lm_content = take 100 (content l) @ (if length (content l) > 100 then ''...'' else ''''),
                   lm_timestamp = timestamp l, lm_sender = sender l\<rparr>)\<rparr>"

text \<open>
  The comparator \<open>new Date(b.updatedAt) - new Date(a.updatedAt)\<close> sorts by descending
  \<open>updatedAt\<close>, stably.
\<close>

definition sortNewestFirst :: "('a \<Rightarrow> nat) \<Rightarrow> 'a list \<Rightarrow> 'a list" where
  "sortNewestFirst stamp xs = sort_key (\<lambda>x. - int (stamp x)) xs"

definition getAgentTickets :: "string \<Rightarrow> ticketManager \<Rightarrow> summary list" where
  "getAgentTickets aid m =
     (let ticketIds = (case map_of (agentTickets m) aid of None \<Rightarrow> [] | Some ts \<Rightarrow> ts);
          found = concat (map (\<lambda>tid.
                     case map_of (tickets m) tid of
                       None \<Rightarrow> []
                     | Some t \<Rightarrow>
                         if status t = ''assigned'' \<or> status t = ''open''
                         then [getTicketSummary t] else []) ticketIds)
      in sortNewestFirst s_updatedAt found)"

definition closeTicket :: "ticketId \<Rightarrow> string \<Rightarrow> nat \<Rightarrow> ticketManager \<Rightarrow> bool \<times> ticketManager" where
  "closeTicket tid by now m =
     (case map_of (tickets m) tid of
        None \<Rightarrow> (False, m)
      | Some t \<Rightarrow>
          (let t' = t\<lparr>status := ''closed'', updatedAt := now,
                      closedAt := Some now, closedBy := Some by\<rparr>;
               m1 = m\<lparr>tickets := AList.update tid t' (tickets m)\<rparr>;
               m2 = (case assignedAgent t' of
                       None \<Rightarrow> m1
                     | Some a \<Rightarrow>
                         if truthy (Some a)
                         then (case map_of (agentTickets m1) a of
                                 None \<Rightarrow> m1
                               | Some ts \<Rightarrow>
                                   m1\<lparr>agentTickets := AList.update a (set_delete tid ts) (agentTickets m1)\<rparr>)
                         else m1)
           in (True, m2\<lparr>ticketAssignments := AList.delete tid (ticketAssignments m2)\<rparr>)))"

definition getStats :: "ticketManager \<Rightarrow> stats" where
  "getStats m =
     \<lparr>totalTickets = length (tickets m),
      openTickets = length (filter (\<lambda>t. status t = ''open'') (map snd (tickets m))),
      assignedTickets = length (filter (\<lambda>t. status t = ''assigned'') (map snd (tickets m))),
      closedTickets = length (filter (\<lambda>t. status t = ''closed'') (map snd (tickets m))),
      activeAgents = length (filter (\<lambda>a. agent_status a = ''available'') (map snd (agentSockets m))),
      totalAgents = length (agentSockets m),
      activeCustomers = length (customerSockets m)\<rparr>"

subsection \<open>The dispatcher: state, events and what the handlers emit\<close>

text \<open>
  Besides the ticket manager the server keeps, on every socket of the agent namespace,
  the property \<open>socket.agentId\<close> (absent until the socket authenticates). A socket
  that disconnects is discarded, so its binding goes with it.
\<close>

record server =
  mgr :: ticketManager
  socketAgent :: "(string \<times> string) list"

definition newServer :: server where
  "newServer = \<lparr>mgr = newManager, socketAgent = []\<rparr>"

text \<open>
  Where an emitted event goes: back on the handling socket (\<open>socket.emit\<close>), through the
  acknowledgement callback, to a socket of the customer or of the agent namespace
  (\<open>namespace.to(id).emit\<close>), or to every other socket of the namespace
  (\<open>socket.broadcast.emit\<close>).
\<close>

datatype target =
    ToSocket string
  | Callback string
  | ToCustomer string
  | ToAgent string
  | BroadcastFrom string

text \<open>
  The emitted events with the fields that depend on the state. Clock readings and
  message ids generated only for the wire (\<open>timestamp\<close>, \<open>messageId\<close> of system
  notices) are left out.
\<close>

datatype payload =
    ChatResponse string string string
  | Received ticketId
  | Typing bool
  | NewTicket summary string
  | CustomerMessage ticketId string string
  | CustomerTyping ticketId bool
  | CustomerDisconnected ticketId
  | AuthError string
  | AuthSuccess string string string "summary list" stats
  | AgentStatusChange string string string
  | ErrorEvent string
  | MessageSent ticketId string nat
  | TicketUpdated ticketId string nat
  | TicketDetails ticket

type_synonym emitted = "target \<times> payload"

definition welcomeText :: string where
  "welcomeText = ''Hello! Welcome to our support chat. How can we help you today?''"

definition connectingText :: string where
  "connectingText = ''An agent will be with you shortly. Please wait a moment...''"

definition busyText :: string where
  "busyText = ''All our agents are currently busy. Your message has been recorded and an agent will respond as soon as possible. Thank you for your patience.''"

definition closedText :: string where
  "closedText = ''This support session has been closed. Thank you for contacting us! Feel free to start a new conversation if you need further assistance.''"

text \<open>
  A handler's variable \<open>ticket\<close> is a reference: after the manager has mutated the
  ticket, reading a field through the variable reads the stored entry.
\<close>

definition deref :: "ticketManager \<Rightarrow> ticket \<Rightarrow> ticket" where
  "deref m t = (case map_of (tickets m) (ticket_id t) of Some t' \<Rightarrow> t' | None \<Rightarrow> t)"

text \<open>
  \<open>ticket.assignedAgent === agentId\<close>, where \<open>agentId\<close> is \<open>socket.agentId\<close>: an
  unassigned ticket holds \<open>null\<close> and an unauthenticated socket \<open>undefined\<close>, which
  are not strictly equal.
\<close>

definition sameAgent :: "string option \<Rightarrow> string option \<Rightarrow> bool" where
  "sameAgent assigned requester =
     (case requester of None \<Rightarrow> False | Some a \<Rightarrow> assigned = Some a)"

subsection \<open>Customer namespace\<close>

definition customer_connection :: "string \<Rightarrow> nat \<Rightarrow> server \<Rightarrow> server \<times> emitted list" where
  "customer_connection sid now sv =
     (let m = mgr sv;
          m1 = m\<lparr>customerSockets :=
                   AList.update sid \<lparr>cust_id = sid, cust_connectedAt = now, cust_lastActivity = now\<rparr>
                     (customerSockets m)\<rparr>
      in (sv\<lparr>mgr := m1\<rparr>, [(ToSocket sid, ChatResponse welcomeText ''system'' ''welcome'')]))"

text \<open>
  The handler of \<open>chat_message\<close> in its three steps: update the last activity, get or
  create the ticket of this customer, then try to assign the ticket (or forward the
  message to the agent it is assigned to).
\<close>

definition touchCustomer :: "string \<Rightarrow> nat \<Rightarrow> ticketManager \<Rightarrow> ticketManager" where
  "touchCustomer sid now m =
     (case map_of (customerSockets m) sid of
        None \<Rightarrow> m
      | Some info \<Rightarrow>
          m\<lparr>customerSockets :=
              AList.update sid (info\<lparr>cust_lastActivity := now\<rparr>) (customerSockets m)\<rparr>)"

definition getOrCreateTicket ::
  "string \<Rightarrow> string \<Rightarrow> nat \<Rightarrow> string \<Rightarrow> ticketManager \<Rightarrow> ticket \<times> ticketManager" where
  "getOrCreateTicket sid text now mid m =
     (case getTicketByCustomer sid m of
        None \<Rightarrow> createTicket sid sid (Some text) now mid m
      | Some t \<Rightarrow> (t, snd (addMessage (ticket_id t) text ''customer'' None now mid m)))"

definition tryAssign ::
  "string \<Rightarrow> string \<Rightarrow> ticket \<Rightarrow> nat \<Rightarrow> ticketManager \<Rightarrow> ticketManager \<times> emitted list" where
  "tryAssign sid text ticket now m =
     (if status (deref m ticket) = ''open'' then
        (case getAvailableAgent m of
           Some availableAgent \<Rightarrow>
             (let m' = snd (assignTicket (ticket_id ticket) (agent_id availableAgent) now m)
              in (m', [(ToAgent (socketId availableAgent),
                          NewTicket (getTicketSummary (deref m' ticket)) text),
                       (ToSocket sid, ChatResponse connectingText ''system'' ''agent_connecting'')]))
         | None \<Rightarrow>
             (m, [(ToSocket sid, ChatResponse busyText ''system'' ''no_agents_available'')]))
      else if status (deref m ticket) = ''assigned'' \<and> truthy (assignedAgent (deref m ticket)) then
        (case assignedAgent (deref m ticket) of
           None \<Rightarrow> (m, [])
         | Some aid \<Rightarrow>
             (case map_of (agentSockets m) aid of
                None \<Rightarrow> (m, [])
              | Some agentSocket \<Rightarrow>
                  (m, [(ToAgent (socketId agentSocket),
                          CustomerMessage (ticket_id ticket) text sid)])))
      else (m, []))"

definition chat_message ::
  "string \<Rightarrow> string \<Rightarrow> bool \<Rightarrow> nat \<Rightarrow> string \<Rightarrow> server \<Rightarrow> server \<times> emitted list" where
  "chat_message sid text has_callback now mid sv =
     (let m1 = touchCustomer sid now (mgr sv);
          (ticket, m2) = getOrCreateTicket sid text now mid m1;
          ack = (if has_callback then [(Callback sid, Received (ticket_id ticket))] else []);
          (m3, out) = tryAssign sid text ticket now m2
      in (sv\<lparr>mgr := m3\<rparr>, ack @ out))"

text \<open>The agent socket to notify about the customer's ticket, if there is one.\<close>

definition assignedAgentSocket :: "string \<Rightarrow> ticketManager \<Rightarrow> (ticket \<times> agent) option" where
  "assignedAgentSocket sid m =
     (case getTicketByCustomer sid m of
        None \<Rightarrow> None
      | Some ticket \<Rightarrow>
          (case assignedAgent ticket of
             None \<Rightarrow> None
           | Some aid \<Rightarrow>
               if truthy (Some aid)
               then (case map_of (agentSockets m) aid of
                       None \<Rightarrow> None
                     | Some agentSocket \<Rightarrow> Some (ticket, agentSocket))
               else None))"

definition customer_typing :: "string \<Rightarrow> bool \<Rightarrow> server \<Rightarrow> server \<times> emitted list" where
  "customer_typing sid isTyping sv =
     (case assignedAgentSocket sid (mgr sv) of
        None \<Rightarrow> (sv, [])
      | Some (ticket, agentSocket) \<Rightarrow>
          (sv, [(ToAgent (socketId agentSocket), CustomerTyping (ticket_id ticket) isTyping)]))"

definition customer_disconnect :: "string \<Rightarrow> server \<Rightarrow> server \<times> emitted list" where
  "customer_disconnect sid sv =
     (let m = mgr sv;
          out = (case assignedAgentSocket sid m of
                   None \<Rightarrow> []
                 | Some (ticket, agentSocket) \<Rightarrow>
                     [(ToAgent (socketId agentSocket), CustomerDisconnected (ticket_id ticket))])
      in (sv\<lparr>mgr := m\<lparr>customerSockets := AList.delete sid (customerSockets m)\<rparr>\<rparr>, out))"

subsection \<open>Agent namespace\<close>

text \<open>
  The fields of an event's data are strings; a field that is missing or falsy is the
  empty string.
\<close>

definition authenticate ::
  "string \<Rightarrow> string \<Rightarrow> string \<Rightarrow> string \<Rightarrow> nat \<Rightarrow> server \<Rightarrow> server \<times> emitted list" where
  "authenticate sid agentId agentName dept now sv =
     (if agentId = [] \<or> agentName = [] then
        (sv, [(ToSocket sid, AuthError ''Invalid credentials'')])
      else
        (let m = mgr sv;
             info = \<lparr>agent_id = agentId, socketId = sid, agent_name = agentName,
                     department = (if dept = [] then ''General Support'' else dept),
                     agent_status = ''available'', connectedAt = now, lastActivity = now\<rparr>;
             m1 = m\<lparr>agentSockets := AList.update agentId info (agentSockets m)\<rparr>
         in (sv\<lparr>mgr := m1, socketAgent := AList.update sid agentId (socketAgent sv)\<rparr>,
             [(ToSocket sid,
                 AuthSuccess agentId agentName dept (getAgentTickets agentId m1) (getStats m1)),
              (BroadcastFrom sid, AgentStatusChange agentId agentName ''available'')])))"

text \<open>
  In \<open>send_message\<close> the ticket has just been looked up, so \<open>addMessage\<close> returns the
  message; the branch for \<open>null\<close> is never taken.
\<close>

definition send_message ::
  "string \<Rightarrow> ticketId \<Rightarrow> string \<Rightarrow> nat \<Rightarrow> string \<Rightarrow> server \<Rightarrow> server \<times> emitted list" where
  "send_message sid tid text now mid sv =
     (let agentId = map_of (socketAgent sv) sid
      in if \<not> truthy agentId then (sv, [(ToSocket sid, ErrorEvent ''Not authenticated'')])
         else
           (case map_of (tickets (mgr sv)) tid of
              None \<Rightarrow> (sv, [(ToSocket sid, ErrorEvent ''Ticket not found or not assigned to you'')])
            | Some ticket \<Rightarrow>
                if \<not> sameAgent (assignedAgent ticket) agentId then
                  (sv, [(ToSocket sid, ErrorEvent ''Ticket not found or not assigned to you'')])
                else
                  (case addMessage tid text ''agent'' agentId now mid (mgr sv) of
                     (None, m1) \<Rightarrow> (sv\<lparr>mgr := m1\<rparr>, [])
                   | (Some messageObj, m1) \<Rightarrow>
                       (sv\<lparr>mgr := m1\<rparr>,
                        [(ToCustomer (customerSocketId ticket), ChatResponse text ''agent'' ''response''),
                         (ToSocket sid, MessageSent tid (msg_id messageObj) (timestamp messageObj))]))))"

definition agent_typing :: "string \<Rightarrow> ticketId \<Rightarrow> bool \<Rightarrow> server \<Rightarrow> server \<times> emitted list" where
  "agent_typing sid tid isTyping sv =
     (case map_of (tickets (mgr sv)) tid of
        None \<Rightarrow> (sv, [])
      | Some ticket \<Rightarrow>
          if sameAgent (assignedAgent ticket) (map_of (socketAgent sv) sid)
          then (sv, [(ToCustomer (customerSocketId ticket), Typing isTyping)])
          else (sv, []))"

definition update_ticket_status ::
  "string \<Rightarrow> ticketId \<Rightarrow> string \<Rightarrow> nat \<Rightarrow> server \<Rightarrow> server \<times> emitted list" where
  "update_ticket_status sid tid newStatus now sv =
     (case map_of (tickets (mgr sv)) tid of
        None \<Rightarrow> (sv, [])
      | Some ticket \<Rightarrow>
          (case map_of (socketAgent sv) sid of
             None \<Rightarrow> (sv, [])
           | Some agentId \<Rightarrow>
               if sameAgent (assignedAgent ticket) (Some agentId) then
                 (let m = mgr sv;
                      m1 = m\<lparr>tickets :=
                              AList.update tid (ticket\<lparr>status := newStatus, updatedAt := now\<rparr>) (tickets m)\<rparr>;
                      updated = (ToSocket sid, TicketUpdated tid newStatus now)
                  in if newStatus = ''closed'' then
                       (sv\<lparr>mgr := snd (closeTicket tid agentId now m1)\<rparr>,
                        [updated,
                         (ToCustomer (customerSocketId ticket),
                            ChatResponse closedText ''system'' ''session_closed'')])
                     else (sv\<lparr>mgr := m1\<rparr>, [updated]))
               else (sv, [])))"

definition update_status :: "string \<Rightarrow> string \<Rightarrow> nat \<Rightarrow> server \<Rightarrow> server \<times> emitted list" where
  "update_status sid newStatus now sv =
     (case map_of (socketAgent sv) sid of
        None \<Rightarrow> (sv, [])
      | Some agentId \<Rightarrow>
          (case map_of (agentSockets (mgr sv)) agentId of
             None \<Rightarrow> (sv, [])
           | Some agentInfo \<Rightarrow>
               (let m = mgr sv
                in (sv\<lparr>mgr := m\<lparr>agentSockets :=
                        AList.update agentId (agentInfo\<lparr>agent_status := newStatus, lastActivity := now\<rparr>)
                          (agentSockets m)\<rparr>\<rparr>,
                    [(BroadcastFrom sid, AgentStatusChange agentId (agent_name agentInfo) newStatus)]))))"

definition get_ticket_details :: "string \<Rightarrow> ticketId \<Rightarrow> server \<Rightarrow> server \<times> emitted list" where
  "get_ticket_details sid tid sv =
     (case map_of (tickets (mgr sv)) tid of
        None \<Rightarrow> (sv, [])
      | Some ticket \<Rightarrow>
          if sameAgent (assignedAgent ticket) (map_of (socketAgent sv) sid) then
            (let m = mgr sv;
                 ticket' = ticket\<lparr>messages :=
                    map (\<lambda>msg. if sender msg = ''customer'' then msg\<lparr>read := True\<rparr> else msg)
                      (messages ticket)\<rparr>
             in (sv\<lparr>mgr := m\<lparr>tickets := AList.update tid ticket' (tickets m)\<rparr>\<rparr>,
                 [(ToSocket sid, TicketDetails ticket')]))
          else (sv, []))"

definition agent_disconnect :: "string \<Rightarrow> server \<Rightarrow> server \<times> emitted list" where
  "agent_disconnect sid sv =
     (case map_of (socketAgent sv) sid of
        None \<Rightarrow> (sv, [])
      | Some agentId \<Rightarrow>
          if truthy (Some agentId) then
            (let m = mgr sv;
                 (m1, out) =
                   (case map_of (agentSockets m) agentId of
                      None \<Rightarrow> (m, [])
                    | Some agentInfo \<Rightarrow>
                        (m\<lparr>agentSockets :=
                             AList.update agentId (agentInfo\<lparr>agent_status := ''offline''\<rparr>) (agentSockets m)\<rparr>,
                         [(BroadcastFrom sid,
                             AgentStatusChange agentId (agent_name agentInfo) ''offline'')]));
                 m2 = m1\<lparr>agentSockets := AList.delete agentId (agentSockets m1)\<rparr>
             in (sv\<lparr>mgr := m2, socketAgent := AList.delete sid (socketAgent sv)\<rparr>, out))
          else (sv\<lparr>socketAgent := AList.delete sid (socketAgent sv)\<rparr>, []))"

subsection \<open>Events and runs\<close>

datatype event =
    CustomerConnection string
  | ChatMessage string string bool
  | CustomerTypes string bool
  | CustomerDisconnect string
  | AgentConnection string
  | Authenticate string string string string
  | SendMessage string ticketId string
  | AgentTypes string ticketId bool
  | UpdateTicketStatus string ticketId string
  | UpdateStatus string string
  | GetTicketDetails string ticketId
  | AgentDisconnect string

text \<open>
  One event runs to completion before the next. Each comes with the clock reading and
  the message id drawn while it is handled.
\<close>

fun step :: "nat \<Rightarrow> string \<Rightarrow> event \<Rightarrow> server \<Rightarrow> server \<times> emitted list" where
  "step now mid (CustomerConnection sid) sv = customer_connection sid now sv"
| "step now mid (ChatMessage sid text cb) sv = chat_message sid text cb now mid sv"
| "step now mid (CustomerTypes sid isTyping) sv = customer_typing sid isTyping sv"
| "step now mid (CustomerDisconnect sid) sv = customer_disconnect sid sv"
| "step now mid (AgentConnection sid) sv = (sv, [])"
| "step now mid (Authenticate sid agentId agentName dept) sv = authenticate sid agentId agentName dept now sv"
| "step now mid (SendMessage sid tid text) sv = send_message sid tid text now mid sv"
| "step now mid (AgentTypes sid tid isTyping) sv = agent_typing sid tid isTyping sv"
| "step now mid (UpdateTicketStatus sid tid newStatus) sv = update_ticket_status sid tid newStatus now sv"
| "step now mid (UpdateStatus sid newStatus) sv = update_status sid newStatus now sv"
| "step now mid (GetTicketDetails sid tid) sv = get_ticket_details sid tid sv"
| "step now mid (AgentDisconnect sid) sv = agent_disconnect sid sv"

fun run :: "(nat \<times> string \<times> event) list \<Rightarrow> server \<Rightarrow> server" where
  "run [] sv = sv"
| "run ((now, mid, e) # es) sv = run es (fst (step now mid e sv))"

subsection \<open>The admin endpoint that lists tickets\<close>

datatype jsnumber = NaN | Num int

text \<open>
  \<open>parseInt\<close> without a radix, on ASCII text: leading white space is skipped, a sign
  is read, a prefix \<open>0x\<close> or \<open>0X\<close> selects base 16, and the longest run of digits
  of the base is the value; no digit gives \<open>NaN\<close>.
\<close>

definition isWhiteSpace :: "char \<Rightarrow> bool" where
  "isWhiteSpace c = (c \<in> set [CHR 0x20, CHR 0x09, CHR 0x0A, CHR 0x0B, CHR 0x0C, CHR 0x0D])"

definition digitValue :: "char \<Rightarrow> nat option" where
  "digitValue c =
     (let n = (of_char c :: nat)
      in if 48 \<le> n \<and> n \<le> 57 then Some (n - 48)
         else if 97 \<le> n \<and> n \<le> 122 then Some (n - 87)
         else if 65 \<le> n \<and> n \<le> 90 then Some (n - 55)
         else None)"

definition isDigitOf :: "nat \<Rightarrow> char \<Rightarrow> bool" where
  "isDigitOf radix c = (case digitValue c of None \<Rightarrow> False | Some d \<Rightarrow> d < radix)"

definition digitsValue :: "nat \<Rightarrow> string \<Rightarrow> nat" where
  "digitsValue radix ds =
     foldl (\<lambda>acc c. acc * radix + (case digitValue c of None \<Rightarrow> 0 | Some d \<Rightarrow> d)) 0 ds"

definition parseInt :: "string \<Rightarrow> jsnumber" where
  "parseInt text =
     (let s1 = dropWhile isWhiteSpace text;
          (negative, s2) =
            (case s1 of
               [] \<Rightarrow> (False, s1)
             | c # cs \<Rightarrow>
                 if c = CHR ''-'' then (True, cs)
                 else if c = CHR ''+'' then (False, cs)
                 else (False, s1));
          (radix, s3) =
            (if take 2 s2 = ''0x'' \<or> take 2 s2 = ''0X'' then (16, drop 2 s2) else (10, s2));
          ds = takeWhile (isDigitOf radix) s3
      in if ds = [] then NaN
         else Num (if negative then - int (digitsValue radix ds) else int (digitsValue radix ds)))"

text \<open>
  \<open>Array.prototype.slice(0, end)\<close>: \<open>NaN\<close> counts as 0, a negative end counts from
  the end of the array, and the end is clamped to the length.
\<close>

definition slice0 :: "jsnumber \<Rightarrow> 'a list \<Rightarrow> 'a list" where
  "slice0 stop xs =
     (case stop of
        NaN \<Rightarrow> []
      | Num e \<Rightarrow>
          if e < 0 then take (nat (max (int (length xs) + e) 0)) xs
          else take (nat (min e (int (length xs)))) xs)"

text \<open>
  The tickets that pass the filters of the query. An absent query parameter is
  \<open>None\<close>; \<open>limit\<close> defaults to the number 50 when absent.
\<close>

definition matchingTickets :: "string option \<Rightarrow> string option \<Rightarrow> ticketManager \<Rightarrow> ticket list" where
  "matchingTickets statusQ agentIdQ m =
     (let ts = map snd (tickets m);
          ts1 = (case statusQ of
                   None \<Rightarrow> ts
                 | Some st \<Rightarrow> if truthy statusQ then filter (\<lambda>t. status t = st) ts else ts);
          ts2 = (case agentIdQ of
                   None \<Rightarrow> ts1
                 | Some a \<Rightarrow> if truthy agentIdQ then filter (\<lambda>t. assignedAgent t = Some a) ts1 else ts1)
      in ts2)"

definition limitOf :: "string option \<Rightarrow> jsnumber" where
  "limitOf limitQ = (case limitQ of None \<Rightarrow> Num 50 | Some text \<Rightarrow> parseInt text)"

definition listTickets ::
  "string option \<Rightarrow> string option \<Rightarrow> string option \<Rightarrow> ticketManager \<Rightarrow> summary list \<times> nat" where
  "listTickets statusQ agentIdQ limitQ m =
     (let page = map getTicketSummary
                   (slice0 (limitOf limitQ)
                      (sortNewestFirst updatedAt (matchingTickets statusQ agentIdQ m)))
      in (page, length page))"

subsection \<open>Consistency conditions on the manager's state\<close>

text \<open>
  The two directions of the index between tickets and agents: \<open>ticketAssignments\<close>
  sends the ticket id to the agent and the id is in the agent's \<open>agentTickets\<close> set.
\<close>

definition indexed :: "ticketManager \<Rightarrow> ticketId \<Rightarrow> string \<Rightarrow> bool" where
  "indexed m k a =
     (map_of (ticketAssignments m) k = Some a \<and>
      (case map_of (agentTickets m) a of None \<Rightarrow> False | Some ts \<Rightarrow> k \<in> set ts))"

text \<open>Every ticket is stored under its own id, and ids already used lie below the counter.\<close>

definition keysOk :: "ticketManager \<Rightarrow> bool" where
  "keysOk m = (\<forall>k t. map_of (tickets m) k = Some t \<longrightarrow>
      ticket_id t = k \<and> counterOf k < ticketCounter m)"

text \<open>A ticket with status \<open>assigned\<close> names an agent.\<close>

definition agentsOk :: "ticketManager \<Rightarrow> bool" where
  "agentsOk m = (\<forall>k t. map_of (tickets m) k = Some t \<longrightarrow>
      status t = ''assigned'' \<longrightarrow> assignedAgent t \<noteq> None)"

text \<open>A ticket that names an agent and has never been closed is in the index.\<close>

definition openIndexed :: "ticketManager \<Rightarrow> bool" where
  "openIndexed m = (\<forall>k t a. map_of (tickets m) k = Some t \<longrightarrow>
      assignedAgent t = Some a \<longrightarrow> closedAt t = None \<longrightarrow> indexed m k a)"

text \<open>An entry of the forward map belongs to a stored ticket that names the same agent.\<close>

definition indexSound :: "ticketManager \<Rightarrow> bool" where
  "indexSound m = (\<forall>k a. map_of (ticketAssignments m) k = Some a \<longrightarrow>
      (\<exists>t. map_of (tickets m) k = Some t \<and> assignedAgent t = Some a) \<and> indexed m k a)"

definition assignmentInvariant :: "ticketManager \<Rightarrow> bool" where
  "assignmentInvariant m = (keysOk m \<and> agentsOk m \<and> openIndexed m \<and> indexSound m)"

text \<open>The tickets that \<open>getTicketByCustomer\<close> can return for a customer socket.\<close>

definition activeFor :: "string \<Rightarrow> ticketManager \<Rightarrow> (ticketId \<times> ticket) list" where
  "activeFor csid m =
     filter (\<lambda>(tid, t). customerSocketId t = csid \<and> isActive (status t)) (tickets m)"

definition oneActive :: "(ticketId \<times> ticket) list \<Rightarrow> bool" where
  "oneActive ts = (\<forall>k1 t1 k2 t2. map_of ts k1 = Some t1 \<longrightarrow> map_of ts k2 = Some t2 \<longrightarrow>
       customerSocketId t1 = customerSocketId t2 \<longrightarrow>
       isActive (status t1) \<longrightarrow> isActive (status t2) \<longrightarrow> k1 = k2)"

text \<open>
  An \<open>update_ticket_status\<close> event that the handler accepts and that gives the status
  \<open>open\<close> or \<open>assigned\<close> to a ticket whose status is neither.
\<close>

definition reopens :: "server \<Rightarrow> event \<Rightarrow> bool" where
  "reopens sv e =
     (case e of
        UpdateTicketStatus sid k newStatus \<Rightarrow>
          (case map_of (tickets (mgr sv)) k of
             None \<Rightarrow> False
           | Some t \<Rightarrow>
               sameAgent (assignedAgent t) (map_of (socketAgent sv) sid) \<and>
               isActive newStatus \<and> \<not> isActive (status t))
      | _ \<Rightarrow> False)"

fun neverReopens :: "(nat \<times> string \<times> event) list \<Rightarrow> server \<Rightarrow> bool" where
  "neverReopens [] sv = True"
| "neverReopens ((now, mid, e) # es) sv =
     (\<not> reopens sv e \<and> neverReopens es (fst (step now mid e sv)))"

text \<open>Every stored ticket was last stamped at or before the clock reading \<open>c\<close>.\<close>

definition stampsBelow :: "nat \<Rightarrow> (ticketId \<times> ticket) list \<Rightarrow> bool" where
  "stampsBelow c ts = (\<forall>k t. map_of ts k = Some t \<longrightarrow> updatedAt t \<le> c)"

text \<open>The ticket id is in the agent's \<open>agentTickets\<close> set.\<close>

definition holdsTicket :: "(string \<times> ticketId list) list \<Rightarrow> string \<Rightarrow> ticketId \<Rightarrow> bool" where
  "holdsTicket ats a k = (case map_of ats a of None \<Rightarrow> False | Some ts \<Rightarrow> k \<in> set ts)"

text \<open>The ticket is stored and carries a closing stamp.\<close>

definition wasClosed :: "(ticketId \<times> ticket) list \<Rightarrow> ticketId \<Rightarrow> bool" where
  "wasClosed ts k = (case map_of ts k of None \<Rightarrow> False | Some t \<Rightarrow> closedAt t \<noteq> None)"

subsection \<open>Example states\<close>

definition agentAnn :: agent where
  "agentAnn = \<lparr>agent_id = ''A1'', socketId = ''s1'', agent_name = ''Ann'',
     department = ''General Support'', agent_status = ''available'',
     connectedAt = 1002, lastActivity = 1002\<rparr>"

definition agentBob :: agent where
  "agentBob = \<lparr>agent_id = ''A2'', socketId = ''s2'', agent_name = ''Bob'',
     department = ''Billing'', agent_status = ''available'',
     connectedAt = 1001, lastActivity = 1001\<rparr>"

definition agentCy :: agent where
  "agentCy = \<lparr>agent_id = ''A3'', socketId = ''s3'', agent_name = ''Cy'',
     department = ''General Support'', agent_status = ''busy'',
     connectedAt = 1000, lastActivity = 1000\<rparr>"

definition helloTicket :: ticket where
  "helloTicket = \<lparr>ticket_id = TicketId 1003 1, customerId = ''c1'', customerSocketId = ''c1'',
     status = ''assigned'', priority = ''normal'', assignedAgent = Some ''A1'',
     createdAt = 1003, updatedAt = 1003,
     messages = [\<lparr>msg_id = ''m3'', content = ''Hello'', sender = ''customer'',
                   senderId = None, timestamp = 1003, read = False\<rparr>],
     info_connectedAt = 1003, info_lastSeen = 1003, closedAt = None, closedBy = None\<rparr>"

text \<open>Three agents, one of them busy; Ann holds the only ticket.\<close>

definition deskManager :: ticketManager where
  "deskManager = \<lparr>tickets = [(TicketId 1003 1, helloTicket)],
     customerSockets = [(''c1'', \<lparr>cust_id = ''c1'', cust_connectedAt = 1000, cust_lastActivity = 1003\<rparr>)],
     agentSockets = [(''A3'', agentCy), (''A1'', agentAnn), (''A2'', agentBob)],
     ticketAssignments = [(TicketId 1003 1, ''A1'')],
     agentTickets = [(''A1'', [TicketId 1003 1])],
     ticketCounter = 2\<rparr>"

text \<open>The same desk with the three agents' sockets authenticated.\<close>

definition deskServer :: server where
  "deskServer = \<lparr>mgr = deskManager,
     socketAgent = [(''s3'', ''A3''), (''s1'', ''A1''), (''s2'', ''A2'')]\<rparr>"

text \<open>
  A customer connects, agent Ann authenticates, and the customer's first message opens a
  ticket that goes to Ann.
\<close>

definition helloRun :: "(nat \<times> string \<times> event) list" where
  "helloRun =
     [(1000, ''m0'', CustomerConnection ''c1''),
      (1001, ''m1'', AgentConnection ''s1''),
      (1002, ''m2'', Authenticate ''s1'' ''A1'' ''Ann'' []),
      (1003, ''m3'', ChatMessage ''c1'' ''Hello'' True)]"

definition helloServer :: server where
  "helloServer = \<lparr>mgr = deskManager\<lparr>agentSockets := [(''A1'', agentAnn)]\<rparr>,
     socketAgent = [(''s1'', ''A1'')]\<rparr>"

text \<open>Then Ann closes the ticket.\<close>

definition closedRun :: "(nat \<times> string \<times> event) list" where
  "closedRun = helloRun @ [(1004, ''m4'', UpdateTicketStatus ''s1'' (TicketId 1003 1) ''closed'')]"

text \<open>The customer writes again, which opens a second ticket.\<close>

definition againRun :: "(nat \<times> string \<times> event) list" where
  "againRun = closedRun @ [(1005, ''m5'', ChatMessage ''c1'' ''again'' False)]"

text \<open>Ann sets the status of the closed ticket back to \<open>open\<close>.\<close>

definition reopenRun :: "(nat \<times> string \<times> event) list" where
  "reopenRun = againRun @ [(1006, ''m6'', UpdateTicketStatus ''s1'' (TicketId 1003 1) ''open'')]"

text \<open>After the first message a second agent, Bob, authenticates on his own socket.\<close>

definition twoAgentsRun :: "(nat \<times> string \<times> event) list" where
  "twoAgentsRun = helloRun @
     [(1004, ''m4'', AgentConnection ''s2''),
      (1005, ''m5'', Authenticate ''s2'' ''A2'' ''Bob'' ''Billing'')]"

text \<open>
  While Ann is away the customer writes once more and Bob changes his own status; the
  message is stored, with nobody to forward it to.
\<close>

definition awayRun :: "(nat \<times> string \<times> event) list" where
  "awayRun =
     [(1010, ''m10'', ChatMessage ''c1'' ''Still there?'' False),
      (1011, ''m11'', UpdateStatus ''s2'' ''busy'')]"

text \<open>
  Ann authenticates a second socket under her id, and then her first socket
  disconnects: the registry loses her entry while the second socket is still bound.
\<close>

definition sameIdRun :: "(nat \<times> string \<times> event) list" where
  "sameIdRun = helloRun @
     [(1004, ''m4'', AgentConnection ''s3''),
      (1005, ''m5'', Authenticate ''s3'' ''A1'' ''Ann'' []),
      (1006, ''m6'', AgentDisconnect ''s1'')]"

section \<open>Properties of the ticket manager\<close>

subsection \<open>Picking an agent\<close>

lemma sort_key_head_least:
  assumes "sort_key f xs = a # rest"
  shows "a \<in> set xs \<and> (\<forall>b\<in>set xs. f a \<le> f b)"
proof -
  have s: "set (a # rest) = set xs" using assms[symmetric] by simp
  have "sorted (map f (a # rest))" using assms[symmetric] by simp
  then have "\<forall>b\<in>set (a # rest). f a \<le> f b" by auto
  with s show ?thesis by (metis list.set_intros(1))
qed

lemma sort_key_Nil_iff: "sort_key f xs = [] \<longleftrightarrow> xs = []"
  by (metis set_empty set_sort)

lemma getAvailableAgent_None_iff:
  "getAvailableAgent m = None \<longleftrightarrow>
     filter (\<lambda>a. agent_status a = ''available'') (map snd (agentSockets m)) = []"
proof -
  let ?s = "sort_key (ticketCount m)
        (filter (\<lambda>a. agent_status a = ''available'') (map snd (agentSockets m)))"
  have "getAvailableAgent m = None \<longleftrightarrow> ?s = []"
    unfolding getAvailableAgent_def
    by (cases ?s) (simp_all only: list.case option.simps list.simps simp_thms)
  then show ?thesis by (simp only: sort_key_Nil_iff)
qed

lemma getAvailableAgent_Some:
  assumes "getAvailableAgent m = Some a"
  shows "a \<in> set (filter (\<lambda>a. agent_status a = ''available'') (map snd (agentSockets m))) \<and>
     (\<forall>b\<in>set (filter (\<lambda>a. agent_status a = ''available'') (map snd (agentSockets m))).
        ticketCount m a \<le> ticketCount m b)"
proof -
  obtain rest where "sort_key (ticketCount m)
      (filter (\<lambda>a. agent_status a = ''available'') (map snd (agentSockets m))) = a # rest"
    using assms unfolding getAvailableAgent_def
    by (cases "sort_key (ticketCount m)
        (filter (\<lambda>a. agent_status a = ''available'') (map snd (agentSockets m)))")
       (simp_all only: list.case option.simps)
  then show ?thesis by (rule sort_key_head_least)
qed

text \<open>
  C3: whatever the agent registry holds, \<open>getAvailableAgent\<close> returns only a registered
  agent whose status is \<open>available\<close>; every available agent has at least as many assigned
  tickets as the agent returned, where the number of an agent's assigned tickets is
  the size of the \<open>agentTickets\<close> set stored under its id and 0 if there is none; and the
  result is \<open>null\<close> exactly when no agent is available.
\<close>

theorem getAvailableAgent_least_loaded:
  "(\<forall>a. getAvailableAgent m = Some a \<longrightarrow>
      a \<in> snd ` set (agentSockets m) \<and> agent_status a = ''available'' \<and>
      (\<forall>b\<in>snd ` set (agentSockets m).
          agent_status b = ''available'' \<longrightarrow>
          (case map_of (agentTickets m) (agent_id a) of None \<Rightarrow> 0 | Some ts \<Rightarrow> length ts)
            \<le> (case map_of (agentTickets m) (agent_id b) of None \<Rightarrow> 0 | Some ts \<Rightarrow> length ts))) \<and>
   (getAvailableAgent m = None \<longleftrightarrow>
      (\<forall>b\<in>snd ` set (agentSockets m). agent_status b \<noteq> ''available''))"
proof (intro conjI allI impI)
  fix a assume h: "getAvailableAgent m = Some a"
  from getAvailableAgent_Some[OF h]
  show "a \<in> snd ` set (agentSockets m)" by simp
  from getAvailableAgent_Some[OF h]
  show "agent_status a = ''available''" by simp
  from getAvailableAgent_Some[OF h]
  have "\<forall>b\<in>snd ` set (agentSockets m).
          agent_status b = ''available'' \<longrightarrow> ticketCount m a \<le> ticketCount m b" by simp
  then show "\<forall>b\<in>snd ` set (agentSockets m).
          agent_status b = ''available'' \<longrightarrow>
          (case map_of (agentTickets m) (agent_id a) of None \<Rightarrow> 0 | Some ts \<Rightarrow> length ts)
            \<le> (case map_of (agentTickets m) (agent_id b) of None \<Rightarrow> 0 | Some ts \<Rightarrow> length ts)"
    unfolding ticketCount_def .
next
  show "getAvailableAgent m = None \<longleftrightarrow>
      (\<forall>b\<in>snd ` set (agentSockets m). agent_status b \<noteq> ''available'')"
    unfolding getAvailableAgent_None_iff filter_empty_conv by simp
qed

theorem getAvailableAgent_least_loaded_witness:
  "getAvailableAgent deskManager = Some agentBob \<and>
   agentBob \<in> snd ` set (agentSockets deskManager) \<and>
   agentAnn \<in> snd ` set (agentSockets deskManager) \<and>
   agent_status agentAnn = ''available'' \<and> agent_status agentBob = ''available'' \<and>
   map_of (agentTickets deskManager) (agent_id agentBob) = None \<and>
   map_of (agentTickets deskManager) (agent_id agentAnn) = Some [TicketId 1003 1] \<and>
   (case map_of (agentTickets deskManager) (agent_id agentBob) of None \<Rightarrow> 0 | Some ts \<Rightarrow> length ts)
     \<le> (case map_of (agentTickets deskManager) (agent_id agentAnn) of None \<Rightarrow> 0 | Some ts \<Rightarrow> length ts) \<and>
   getAvailableAgent newManager = None \<and> agentSockets newManager = []"
proof -
  have g: "getAvailableAgent deskManager = Some agentBob"
    by (simp add: getAvailableAgent_def deskManager_def agentAnn_def agentBob_def agentCy_def
          ticketCount_def)
  have a: "agentAnn \<in> snd ` set (agentSockets deskManager)" "agent_status agentAnn = ''available''"
    "agent_status agentBob = ''available''"
    by (simp_all add: deskManager_def agentAnn_def agentBob_def)
  have c: "map_of (agentTickets deskManager) (agent_id agentBob) = None"
    "map_of (agentTickets deskManager) (agent_id agentAnn) = Some [TicketId 1003 1]"
    by (simp_all add: deskManager_def agentAnn_def agentBob_def)
  have e: "agentSockets newManager = []" by (simp add: newManager_def)
  show ?thesis
    using g a c e getAvailableAgent_least_loaded [of deskManager]
      getAvailableAgent_least_loaded [of newManager]
    by simp
qed

subsection \<open>Closing a ticket\<close>

text \<open>
  C5: \<open>closeTicket\<close> on a ticket of the tickets map returns \<open>true\<close>, sets its status to
  \<open>closed\<close> and stamps \<open>closedAt\<close> and \<open>closedBy\<close>; afterwards the ticket id is not a key
  of \<open>ticketAssignments\<close> and is not in the \<open>agentTickets\<close> set of the agent the ticket
  was assigned to (\<open>ticket.assignedAgent\<close>, a non-empty id as every registered agent
  has). On an unknown id it returns \<open>false\<close> and changes nothing.
\<close>

theorem closeTicket_releases:
  "(map_of (tickets m) tid = None \<longrightarrow> closeTicket tid by now m = (False, m)) \<and>
   (\<forall>t. map_of (tickets m) tid = Some t \<longrightarrow>
      fst (closeTicket tid by now m) = True \<and>
      (\<exists>t'. map_of (tickets (snd (closeTicket tid by now m))) tid = Some t' \<and>
          status t' = ''closed'' \<and> closedAt t' = Some now \<and> closedBy t' = Some by) \<and>
      map_of (ticketAssignments (snd (closeTicket tid by now m))) tid = None \<and>
      (\<forall>a ts. assignedAgent t = Some a \<and> a \<noteq> [] \<and>
          map_of (agentTickets (snd (closeTicket tid by now m))) a = Some ts \<longrightarrow> tid \<notin> set ts))"
  by (auto simp: closeTicket_def Let_def update_conv' delete_conv' set_delete_def
           split: option.splits)

theorem closeTicket_releases_witness:
  "map_of (tickets deskManager) (TicketId 9 9) = None \<and>
   closeTicket (TicketId 9 9) ''A1'' 2000 deskManager = (False, deskManager) \<and>
   map_of (tickets deskManager) (TicketId 1003 1) = Some helloTicket \<and>
   assignedAgent helloTicket = Some ''A1'' \<and> ''A1'' \<noteq> [] \<and>
   TicketId 1003 1 \<in> set (the (map_of (agentTickets deskManager) ''A1'')) \<and>
   map_of (agentTickets (snd (closeTicket (TicketId 1003 1) ''A1'' 2000 deskManager))) ''A1'' = Some [] \<and>
   TicketId 1003 1 \<notin> set [] \<and>
   fst (closeTicket (TicketId 1003 1) ''A1'' 2000 deskManager) = True \<and>
   map_of (ticketAssignments (snd (closeTicket (TicketId 1003 1) ''A1'' 2000 deskManager))) (TicketId 1003 1) = None"
  using closeTicket_releases [of deskManager "TicketId 9 9" "''A1''" 2000]
    closeTicket_releases [of deskManager "TicketId 1003 1" "''A1''" 2000]
  by (simp add: deskManager_def helloTicket_def closeTicket_def Let_def set_delete_def)

subsection \<open>Assigning an already assigned ticket again\<close>

text \<open>
  C6: when a ticket is assigned to agent \<open>a1\<close> (the forward map sends its id to \<open>a1\<close> and
  the id is in \<open>a1\<close>'s set) and \<open>assignTicket\<close> is called for it with another registered
  agent \<open>a2\<close>, the call succeeds, the forward map now sends the id to \<open>a2\<close>, the id is in
  \<open>a2\<close>'s set, and \<open>a1\<close>'s set is what it was, so the id is still in it.
\<close>

theorem assignTicket_reassign_keeps_old_slot:
  assumes "map_of (tickets m) tid = Some t"
    and "map_of (agentSockets m) a2 = Some ag2"
    and "map_of (ticketAssignments m) tid = Some a1"
    and "map_of (agentTickets m) a1 = Some ts1"
    and "tid \<in> set ts1"
    and "a2 \<noteq> a1"
  shows "fst (assignTicket tid a2 now m) = True \<and>
     map_of (ticketAssignments (snd (assignTicket tid a2 now m))) tid = Some a2 \<and>
     (\<exists>ts2. map_of (agentTickets (snd (assignTicket tid a2 now m))) a2 = Some ts2 \<and> tid \<in> set ts2) \<and>
     map_of (agentTickets (snd (assignTicket tid a2 now m))) a1 = Some ts1 \<and>
     (\<exists>t'. map_of (tickets (snd (assignTicket tid a2 now m))) tid = Some t' \<and>
         assignedAgent t' = Some a2 \<and> status t' = ''assigned'')"
  using assms
  by (auto simp: assignTicket_def Let_def update_conv' set_add_def split: option.splits)

theorem assignTicket_reassign_keeps_old_slot_witness:
  "map_of (ticketAssignments (snd (assignTicket (TicketId 1003 1) ''A2'' 2000 deskManager)))
     (TicketId 1003 1) = Some ''A2'' \<and>
   map_of (agentTickets (snd (assignTicket (TicketId 1003 1) ''A2'' 2000 deskManager))) ''A2''
     = Some [TicketId 1003 1] \<and>
   map_of (agentTickets (snd (assignTicket (TicketId 1003 1) ''A2'' 2000 deskManager))) ''A1''
     = Some [TicketId 1003 1]"
proof -
  have h1: "map_of (tickets deskManager) (TicketId 1003 1) = Some helloTicket"
    by (simp add: deskManager_def)
  have h2: "map_of (agentSockets deskManager) ''A2'' = Some agentBob"
    by (simp add: deskManager_def)
  have h3: "map_of (ticketAssignments deskManager) (TicketId 1003 1) = Some ''A1''"
    by (simp add: deskManager_def)
  have h4: "map_of (agentTickets deskManager) ''A1'' = Some [TicketId 1003 1]"
    by (simp add: deskManager_def)
  have h5: "TicketId 1003 1 \<in> set [TicketId 1003 1]" by simp
  have h6: "''A2'' \<noteq> ''A1''" by simp
  show ?thesis
    using assignTicket_reassign_keeps_old_slot [OF h1 h2 h3 h4 h5 h6, of 2000]
    by (simp add: assignTicket_def deskManager_def Let_def set_add_def)
qed

section \<open>Properties of the handlers\<close>

subsection \<open>What the manager's operations change\<close>

lemma createTicket_fields:
  "tickets (snd (createTicket cid csid msg now mid m)) =
     AList.update (TicketId now (ticketCounter m)) (fst (createTicket cid csid msg now mid m)) (tickets m)"
  "ticketCounter (snd (createTicket cid csid msg now mid m)) = Suc (ticketCounter m)"
  "ticketAssignments (snd (createTicket cid csid msg now mid m)) = ticketAssignments m"
  "agentTickets (snd (createTicket cid csid msg now mid m)) = agentTickets m"
  "agentSockets (snd (createTicket cid csid msg now mid m)) = agentSockets m"
  "customerSockets (snd (createTicket cid csid msg now mid m)) = customerSockets m"
  by (simp_all add: createTicket_def generateTicketId_def Let_def)

lemma createTicket_ticket:
  "ticket_id (fst (createTicket cid csid msg now mid m)) = TicketId now (ticketCounter m)"
  "status (fst (createTicket cid csid msg now mid m)) = ''open''"
  "assignedAgent (fst (createTicket cid csid msg now mid m)) = None"
  "closedAt (fst (createTicket cid csid msg now mid m)) = None"
  "customerSocketId (fst (createTicket cid csid msg now mid m)) = csid"
  by (simp_all add: createTicket_def generateTicketId_def Let_def)

lemma assignTicket_noop:
  assumes "map_of (tickets m) k = None \<or> map_of (agentSockets m) a = None"
  shows "snd (assignTicket k a now m) = m"
  using assms by (auto simp: assignTicket_def split: option.splits)

lemma assignTicket_fields:
  assumes "map_of (tickets m) k = Some t" and "map_of (agentSockets m) a = Some ag"
  shows "tickets (snd (assignTicket k a now m)) =
      AList.update k (t\<lparr>assignedAgent := Some a, status := ''assigned'', updatedAt := now\<rparr>) (tickets m)"
    and "map_of (ticketAssignments (snd (assignTicket k a now m))) =
      (map_of (ticketAssignments m))(k \<mapsto> a)"
    and "map_of (agentTickets (snd (assignTicket k a now m))) =
      (map_of (agentTickets m))(a \<mapsto>
         set_add k (case map_of (agentTickets m) a of None \<Rightarrow> [] | Some ts \<Rightarrow> ts))"
    and "ticketCounter (snd (assignTicket k a now m)) = ticketCounter m"
    and "agentSockets (snd (assignTicket k a now m)) = agentSockets m"
    and "customerSockets (snd (assignTicket k a now m)) = customerSockets m"
  using assms
  by (auto simp: assignTicket_def Let_def update_conv' fun_eq_iff split: option.splits)

lemma closeTicket_noop:
  assumes "map_of (tickets m) k = None"
  shows "snd (closeTicket k by now m) = m"
  using assms by (simp add: closeTicket_def)

lemma closeTicket_fields:
  assumes "map_of (tickets m) k = Some t"
  shows "tickets (snd (closeTicket k by now m)) =
      AList.update k (t\<lparr>status := ''closed'', updatedAt := now,
                       closedAt := Some now, closedBy := Some by\<rparr>) (tickets m)"
    and "map_of (ticketAssignments (snd (closeTicket k by now m))) =
      (map_of (ticketAssignments m))(k := None)"
    and "ticketCounter (snd (closeTicket k by now m)) = ticketCounter m"
    and "agentSockets (snd (closeTicket k by now m)) = agentSockets m"
    and "customerSockets (snd (closeTicket k by now m)) = customerSockets m"
  using assms
  by (auto simp: closeTicket_def Let_def delete_conv' split: option.splits)

lemma closeTicket_agentTickets:
  assumes "map_of (agentTickets m) a = Some ts"
  shows "\<exists>ts'. map_of (agentTickets (snd (closeTicket k by now m))) a = Some ts' \<and>
            set ts - {k} \<subseteq> set ts'"
  using assms
  by (auto simp: closeTicket_def Let_def update_conv' set_delete_def split: option.splits)

lemma touchCustomer_frame [simp]:
  "tickets (touchCustomer sid now m) = tickets m"
  "ticketCounter (touchCustomer sid now m) = ticketCounter m"
  "ticketAssignments (touchCustomer sid now m) = ticketAssignments m"
  "agentTickets (touchCustomer sid now m) = agentTickets m"
  "agentSockets (touchCustomer sid now m) = agentSockets m"
  by (simp_all add: touchCustomer_def split: option.splits)

lemma getTicketByCustomer_cong:
  "tickets m' = tickets m \<Longrightarrow> getTicketByCustomer csid m' = getTicketByCustomer csid m"
  by (simp add: getTicketByCustomer_def)

lemma getAvailableAgent_cong:
  assumes "agentSockets m' = agentSockets m" and "agentTickets m' = agentTickets m"
  shows "getAvailableAgent m' = getAvailableAgent m"
proof -
  have "ticketCount m' = ticketCount m" using assms(2) by (simp add: ticketCount_def fun_eq_iff)
  then show ?thesis using assms(1) by (simp add: getAvailableAgent_def)
qed

lemma find_update_fresh:
  assumes "find P xs = None" and "P (k, v)"
  shows "find P (AList.update k v xs) = Some (k, v)"
  using assms by (induction xs) (auto split: if_splits)

lemma run_append: "run (xs @ ys) sv = run ys (run xs sv)"
  by (induction xs arbitrary: sv) auto

text \<open>The definitions to unfold when a handler is run on a concrete state.\<close>

lemmas handler_defs =
  customer_connection_def chat_message_def touchCustomer_def getOrCreateTicket_def tryAssign_def
  customer_typing_def customer_disconnect_def assignedAgentSocket_def
  authenticate_def send_message_def agent_typing_def update_ticket_status_def update_status_def
  get_ticket_details_def agent_disconnect_def
  createTicket_def generateTicketId_def getTicketByCustomer_def getAvailableAgent_def ticketCount_def
  assignTicket_def addMessage_def closeTicket_def deref_def sameAgent_def isActive_def
  set_add_def set_delete_def getAgentTickets_def getStats_def sortNewestFirst_def getTicketSummary_def

lemma run_helloRun: "run helloRun newServer = helloServer"
  by (simp add: helloRun_def newServer_def newManager_def helloServer_def deskManager_def
        helloTicket_def agentAnn_def handler_defs Let_def)

subsection \<open>A first message when no agent is available\<close>

lemma chat_message_first_no_agent:
  assumes none: "getTicketByCustomer sid (mgr sv) = None"
    and busy: "getAvailableAgent (mgr sv) = None"
  shows "chat_message sid text cb now mid sv =
     (sv\<lparr>mgr := snd (createTicket sid sid (Some text) now mid (touchCustomer sid now (mgr sv)))\<rparr>,
      (if cb then [(Callback sid, Received (TicketId now (ticketCounter (mgr sv))))] else []) @
      [(ToSocket sid, ChatResponse busyText ''system'' ''no_agents_available'')])"
proof -
  let ?m1 = "touchCustomer sid now (mgr sv)"
  let ?c = "createTicket sid sid (Some text) now mid ?m1"
  have "getTicketByCustomer sid ?m1 = getTicketByCustomer sid (mgr sv)"
    by (rule getTicketByCustomer_cong) simp
  then have t1: "getTicketByCustomer sid ?m1 = None"
    using none by simp
  have g: "getOrCreateTicket sid text now mid ?m1 = ?c"
    by (simp add: getOrCreateTicket_def t1)
  have "getAvailableAgent (snd ?c) = getAvailableAgent (mgr sv)"
    by (rule getAvailableAgent_cong) (simp_all add: createTicket_fields)
  then have t4: "getAvailableAgent (snd ?c) = None"
    using busy by simp
  have t5: "status (deref (snd ?c) (fst ?c)) = ''open''"
    by (simp add: deref_def createTicket_fields createTicket_ticket update_conv')
  have t6: "ticket_id (fst ?c) = TicketId now (ticketCounter (mgr sv))"
    by (simp add: createTicket_ticket)
  have a: "tryAssign sid text (fst ?c) now (snd ?c) =
      (snd ?c, [(ToSocket sid, ChatResponse busyText ''system'' ''no_agents_available'')])"
    by (simp add: tryAssign_def t4 t5)
  show ?thesis
    by (simp add: chat_message_def Let_def case_prod_unfold g a t6)
qed

text \<open>
  C9 (as amended): when a customer socket that has no open or assigned ticket sends a
  message with non-empty text and no agent has status \<open>available\<close>, the customer gets a
  \<open>chat_response\<close> of type \<open>no_agents_available\<close>, and the ticket the customer now has is
  new, with status \<open>open\<close>, no assigned agent and exactly one message, the customer's.
\<close>

theorem first_message_without_agents:
  assumes "getTicketByCustomer sid (mgr sv) = None"
    and "\<forall>b\<in>snd ` set (agentSockets (mgr sv)). agent_status b \<noteq> ''available''"
    and "text \<noteq> []"
  shows "(ToSocket sid, ChatResponse busyText ''system'' ''no_agents_available'')
           \<in> set (snd (chat_message sid text cb now mid sv)) \<and>
     (\<exists>t msg. getTicketByCustomer sid (mgr (fst (chat_message sid text cb now mid sv))) = Some t \<and>
        map_of (tickets (mgr (fst (chat_message sid text cb now mid sv))))
          (TicketId now (ticketCounter (mgr sv))) = Some t \<and>
        ticket_id t = TicketId now (ticketCounter (mgr sv)) \<and>
        status t = ''open'' \<and> assignedAgent t = None \<and>
        messages t = [msg] \<and> length (messages t) = 1 \<and>
        content msg = text \<and> sender msg = ''customer'')"
proof -
  have busy: "getAvailableAgent (mgr sv) = None"
    using assms(2) unfolding getAvailableAgent_None_iff filter_empty_conv by simp
  let ?m = "touchCustomer sid now (mgr sv)"
  let ?k = "TicketId now (ticketCounter (mgr sv))"
  let ?new = "fst (createTicket sid sid (Some text) now mid ?m)"
  have fnd: "find (\<lambda>(tid, t). customerSocketId t = sid \<and> isActive (status t)) (tickets ?m) = None"
    using assms(1) by (simp add: getTicketByCustomer_def)
  have new: "?new = \<lparr>ticket_id = ?k, customerId = sid,
               customerSocketId = sid, status = ''open'', priority = ''normal'',
               assignedAgent = None, createdAt = now, updatedAt = now,
               messages = [\<lparr>msg_id = mid, content = text, sender = ''customer'',
                              senderId = None, timestamp = now, read = False\<rparr>],
               info_connectedAt = now, info_lastSeen = now, closedAt = None, closedBy = None\<rparr>"
    using assms(3) by (simp add: createTicket_def generateTicketId_def Let_def)
  have tks: "tickets (snd (createTicket sid sid (Some text) now mid ?m)) =
      AList.update ?k ?new (tickets ?m)"
    by (simp add: createTicket_fields)
  have act: "(\<lambda>(tid, t). customerSocketId t = sid \<and> isActive (status t)) (?k, ?new)"
    unfolding new by (simp add: isActive_def)
  have got: "getTicketByCustomer sid (snd (createTicket sid sid (Some text) now mid ?m)) = Some ?new"
    unfolding getTicketByCustomer_def tks find_update_fresh [OF fnd act] by simp
  have stored: "map_of (tickets (snd (createTicket sid sid (Some text) now mid ?m))) ?k = Some ?new"
    unfolding tks by (simp add: update_conv')
  note eq = chat_message_first_no_agent [OF assms(1) busy, of "text" cb now mid]
  show ?thesis
    unfolding eq using got stored by (simp add: new)
qed

theorem first_message_without_agents_witness:
  "getTicketByCustomer ''c1'' (mgr newServer) = None \<and>
   agentSockets (mgr newServer) = [] \<and>
   ''Hello'' \<noteq> [] \<and>
   snd (chat_message ''c1'' ''Hello'' False 7 ''m'' newServer) =
      [(ToSocket ''c1'', ChatResponse busyText ''system'' ''no_agents_available'')] \<and>
   (\<exists>t. map_of (tickets (mgr (fst (chat_message ''c1'' ''Hello'' False 7 ''m'' newServer)))) (TicketId 7 1) = Some t \<and>
      status t = ''open'' \<and> assignedAgent t = None \<and> length (messages t) = 1)"
proof -
  have h1: "getTicketByCustomer ''c1'' (mgr newServer) = None"
    by (simp add: getTicketByCustomer_def newServer_def newManager_def)
  have h2: "\<forall>b\<in>snd ` set (agentSockets (mgr newServer)). agent_status b \<noteq> ''available''"
    by (simp add: newServer_def newManager_def)
  have h3: "''Hello'' \<noteq> []" by simp
  have c: "ticketCounter (mgr newServer) = 1" by (simp add: newServer_def newManager_def)
  have out: "snd (chat_message ''c1'' ''Hello'' False 7 ''m'' newServer) =
      [(ToSocket ''c1'', ChatResponse busyText ''system'' ''no_agents_available'')]"
    by (simp add: newServer_def newManager_def handler_defs Let_def)
  show ?thesis
    using h1 h3 out first_message_without_agents [OF h1 h2 h3, of False 7 "''m''"]
    unfolding c by (auto simp: newServer_def newManager_def)
qed

text \<open>
  The claim as stated fails for an empty text: \<open>createTicket\<close> records the initial
  message only if it is truthy, so the new ticket has no message at all.
\<close>

theorem empty_first_message_counterexample:
  "getTicketByCustomer ''c1'' (mgr newServer) = None \<and>
   getAvailableAgent (mgr newServer) = None \<and>
   map_option messages
     (map_of (tickets (mgr (fst (chat_message ''c1'' [] False 7 ''m'' newServer)))) (TicketId 7 1)) = Some [] \<and>
   map_option messages
     (getTicketByCustomer ''c1'' (mgr (fst (chat_message ''c1'' [] False 7 ''m'' newServer)))) = Some []"
  by (simp add: newServer_def newManager_def handler_defs Let_def)

subsection \<open>The total of the ticket list\<close>

lemma length_slice0_nat: "length (slice0 (Num (int n)) xs) = min n (length xs)"
  by (simp add: slice0_def)

text \<open>
  C10 (as amended): the \<open>total\<close> of the response of \<open>GET /api/tickets\<close> is the length
  of the returned page, which is the sorted list of the tickets matching the filters,
  cut by \<open>slice(0, parseInt(limit))\<close>; it is not the number of matching tickets. Whenever
  the limit parses to a non-negative integer and more tickets than that match, the
  total equals the limit.
\<close>

theorem listTickets_total_is_page_length:
  "snd (listTickets statusQ agentIdQ limitQ m) = length (fst (listTickets statusQ agentIdQ limitQ m)) \<and>
   fst (listTickets statusQ agentIdQ limitQ m) =
     map getTicketSummary (slice0 (limitOf limitQ)
        (sortNewestFirst updatedAt (matchingTickets statusQ agentIdQ m))) \<and>
   (\<forall>n. limitOf limitQ = Num (int n) \<and> n < length (matchingTickets statusQ agentIdQ m) \<longrightarrow>
        snd (listTickets statusQ agentIdQ limitQ m) = n)"
  by (simp add: listTickets_def Let_def length_slice0_nat sortNewestFirst_def)

theorem listTickets_total_is_page_length_witness:
  "limitOf (Some ''0'') = Num (int 0) \<and> 0 < length (matchingTickets None None deskManager) \<and>
   snd (listTickets None None (Some ''0'') deskManager) = 0"
proof -
  have h1: "limitOf (Some ''0'') = Num (int 0)"
    by (simp add: limitOf_def parseInt_def isWhiteSpace_def isDigitOf_def digitValue_def
          digitsValue_def Let_def)
  have h2: "0 < length (matchingTickets None None deskManager)"
    by (simp add: matchingTickets_def deskManager_def)
  show ?thesis
    using h1 h2 listTickets_total_is_page_length [of None None "Some ''0''" deskManager]
    by blast
qed

text \<open>
  The claim as stated fails for a negative limit: with \<open>limit=-1\<close> and one matching
  ticket, more tickets than the limit match, the page is cut to nothing and the total
  is 0, not the limit.
\<close>

theorem negative_limit_counterexample:
  "limitOf (Some ''-1'') = Num (- 1) \<and>
   - 1 < int (length (matchingTickets None None deskManager)) \<and>
   snd (listTickets None None (Some ''-1'') deskManager) = 0 \<and>
   int (snd (listTickets None None (Some ''-1'') deskManager)) \<noteq> - 1"
proof -
  have h1: "limitOf (Some ''-1'') = Num (- 1)"
    by (simp add: limitOf_def parseInt_def isWhiteSpace_def isDigitOf_def digitValue_def
          digitsValue_def Let_def)
  have h2: "length (matchingTickets None None deskManager) = 1"
    by (simp add: matchingTickets_def deskManager_def)
  have h3: "snd (listTickets None None (Some ''-1'') deskManager) = 0"
    unfolding listTickets_def Let_def h1 by (simp add: slice0_def sortNewestFirst_def h2)
  show ?thesis using h1 h2 h3 by simp
qed

section \<open>The index between tickets and agents in reachable states\<close>

subsection \<open>Parts of the state the conditions do not read\<close>

lemma indexed_frame [simp]:
  "indexed (m\<lparr>customerSockets := cs\<rparr>) = indexed m"
  "indexed (m\<lparr>agentSockets := ags\<rparr>) = indexed m"
  "indexed (m\<lparr>tickets := ts\<rparr>) = indexed m"
  "indexed (m\<lparr>ticketCounter := c\<rparr>) = indexed m"
  by (simp_all add: indexed_def fun_eq_iff)

lemma assignmentInvariant_frame [simp]:
  "assignmentInvariant (m\<lparr>customerSockets := cs\<rparr>) = assignmentInvariant m"
  "assignmentInvariant (m\<lparr>agentSockets := ags\<rparr>) = assignmentInvariant m"
  by (simp_all add: assignmentInvariant_def keysOk_def agentsOk_def openIndexed_def indexSound_def)

lemma assignmentInvariant_newManager: "assignmentInvariant newManager"
  by (simp add: assignmentInvariant_def keysOk_def agentsOk_def openIndexed_def indexSound_def
        newManager_def)

subsection \<open>Rewriting a stored ticket\<close>

text \<open>The ticket keeps its id and its agent, and a closing stamp is not taken away.\<close>

lemma keysOk_rewrite:
  assumes "keysOk m" and "map_of (tickets m) k = Some t" and "ticket_id t' = ticket_id t"
  shows "keysOk (m\<lparr>tickets := AList.update k t' (tickets m)\<rparr>)"
  unfolding keysOk_def
proof (intro allI impI)
  fix k' u assume h: "map_of (tickets (m\<lparr>tickets := AList.update k t' (tickets m)\<rparr>)) k' = Some u"
  show "ticket_id u = k' \<and> counterOf k' < ticketCounter (m\<lparr>tickets := AList.update k t' (tickets m)\<rparr>)"
  proof (cases "k' = k")
    case True
    then have "u = t'" using h by (simp add: update_conv')
    then show ?thesis using assms True by (simp add: keysOk_def)
  next
    case False
    then have "map_of (tickets m) k' = Some u" using h by (simp add: update_conv')
    then show ?thesis using assms(1) by (simp add: keysOk_def)
  qed
qed

lemma agentsOk_rewrite:
  assumes "agentsOk m" and "status t' = ''assigned'' \<longrightarrow> assignedAgent t' \<noteq> None"
  shows "agentsOk (m\<lparr>tickets := AList.update k t' (tickets m)\<rparr>)"
  unfolding agentsOk_def
proof (intro allI impI)
  fix k' u assume h: "map_of (tickets (m\<lparr>tickets := AList.update k t' (tickets m)\<rparr>)) k' = Some u"
    and s: "status u = ''assigned''"
  show "assignedAgent u \<noteq> None"
  proof (cases "k' = k")
    case True
    then have "u = t'" using h by (simp add: update_conv')
    then show ?thesis using assms(2) s by simp
  next
    case False
    then have "map_of (tickets m) k' = Some u" using h by (simp add: update_conv')
    then show ?thesis using assms(1) s unfolding agentsOk_def by blast
  qed
qed

lemma openIndexed_rewrite:
  assumes "openIndexed m" and "map_of (tickets m) k = Some t"
    and "assignedAgent t' = assignedAgent t" and "closedAt t' = None \<longrightarrow> closedAt t = None"
  shows "openIndexed (m\<lparr>tickets := AList.update k t' (tickets m)\<rparr>)"
  unfolding openIndexed_def
proof (intro allI impI)
  fix k' u a
  assume h: "map_of (tickets (m\<lparr>tickets := AList.update k t' (tickets m)\<rparr>)) k' = Some u"
    and a: "assignedAgent u = Some a" and c: "closedAt u = None"
  have "indexed m k' a"
  proof (cases "k' = k")
    case True
    then have "u = t'" using h by (simp add: update_conv')
    then have "assignedAgent t = Some a" "closedAt t = None" using a c assms(3,4) by simp_all
    then show ?thesis using assms(1,2) True unfolding openIndexed_def by blast
  next
    case False
    then have "map_of (tickets m) k' = Some u" using h by (simp add: update_conv')
    then show ?thesis using assms(1) a c unfolding openIndexed_def by blast
  qed
  then show "indexed (m\<lparr>tickets := AList.update k t' (tickets m)\<rparr>) k' a" by simp
qed

lemma indexSound_rewrite:
  assumes "indexSound m" and "map_of (tickets m) k = Some t"
    and "assignedAgent t' = assignedAgent t"
  shows "indexSound (m\<lparr>tickets := AList.update k t' (tickets m)\<rparr>)"
  unfolding indexSound_def
proof (intro allI impI)
  fix k' a
  assume "map_of (ticketAssignments (m\<lparr>tickets := AList.update k t' (tickets m)\<rparr>)) k' = Some a"
  then have ta: "map_of (ticketAssignments m) k' = Some a" by simp
  then obtain u where u: "map_of (tickets m) k' = Some u" "assignedAgent u = Some a"
    and ix: "indexed m k' a"
    using assms(1) unfolding indexSound_def by blast
  have "\<exists>u'. map_of (AList.update k t' (tickets m)) k' = Some u' \<and> assignedAgent u' = Some a"
  proof (cases "k' = k")
    case True
    then have "u = t" using u(1) assms(2) by simp
    then show ?thesis using True u(2) assms(3) by (simp add: update_conv')
  next
    case False
    then show ?thesis using u by (simp add: update_conv')
  qed
  then show "(\<exists>t. map_of (tickets (m\<lparr>tickets := AList.update k t' (tickets m)\<rparr>)) k' = Some t \<and>
       assignedAgent t = Some a) \<and> indexed (m\<lparr>tickets := AList.update k t' (tickets m)\<rparr>) k' a"
    using ix by simp
qed

lemma assignmentInvariant_rewrite:
  assumes "assignmentInvariant m" and "map_of (tickets m) k = Some t"
    and "ticket_id t' = ticket_id t" and "assignedAgent t' = assignedAgent t"
    and "closedAt t' = None \<longrightarrow> closedAt t = None"
    and "status t' = ''assigned'' \<longrightarrow> assignedAgent t' \<noteq> None"
  shows "assignmentInvariant (m\<lparr>tickets := AList.update k t' (tickets m)\<rparr>)"
  using assms unfolding assignmentInvariant_def
  by (simp only: keysOk_rewrite agentsOk_rewrite openIndexed_rewrite indexSound_rewrite simp_thms)

subsection \<open>createTicket and addMessage\<close>

lemma indexed_createTicket [simp]:
  "indexed (snd (createTicket cid csid msg now mid m)) = indexed m"
  by (simp add: indexed_def fun_eq_iff createTicket_fields)

lemma keysOk_fresh:
  assumes "keysOk m" shows "map_of (tickets m) (TicketId now (ticketCounter m)) = None"
proof (cases "map_of (tickets m) (TicketId now (ticketCounter m))")
  case (Some t)
  then have "counterOf (TicketId now (ticketCounter m)) < ticketCounter m"
    using assms unfolding keysOk_def by blast
  then show ?thesis by simp
qed simp

lemma assignmentInvariant_createTicket:
  assumes "assignmentInvariant m"
  shows "assignmentInvariant (snd (createTicket cid csid msg now mid m))"
proof -
  let ?k = "TicketId now (ticketCounter m)"
  let ?t = "fst (createTicket cid csid msg now mid m)"
  let ?m = "snd (createTicket cid csid msg now mid m)"
  have k: "keysOk m" and a: "agentsOk m" and o: "openIndexed m" and i: "indexSound m"
    using assms by (simp_all add: assignmentInvariant_def)
  have fresh: "map_of (tickets m) ?k = None" by (rule keysOk_fresh [OF k])
  have look: "map_of (tickets ?m) k' = (if k' = ?k then Some ?t else map_of (tickets m) k')" for k'
    by (simp add: createTicket_fields update_conv')
  have "keysOk ?m"
    unfolding keysOk_def
  proof (intro allI impI)
    fix k' u assume "map_of (tickets ?m) k' = Some u"
    then consider "k' = ?k" "u = ?t" | "k' \<noteq> ?k" "map_of (tickets m) k' = Some u"
      unfolding look by (cases "k' = ?k") simp_all
    then show "ticket_id u = k' \<and> counterOf k' < ticketCounter ?m"
    proof cases
      case 1 then show ?thesis by (simp add: createTicket_ticket createTicket_fields)
    next
      case 2
      then have "ticket_id u = k' \<and> counterOf k' < ticketCounter m"
        using k unfolding keysOk_def by blast
      then show ?thesis by (simp add: createTicket_fields)
    qed
  qed
  moreover have "agentsOk ?m"
    unfolding agentsOk_def
  proof (intro allI impI)
    fix k' u assume "map_of (tickets ?m) k' = Some u" and s: "status u = ''assigned''"
    then consider "k' = ?k" "u = ?t" | "k' \<noteq> ?k" "map_of (tickets m) k' = Some u"
      unfolding look by (cases "k' = ?k") simp_all
    then show "assignedAgent u \<noteq> None"
    proof cases
      case 1 then show ?thesis using s by (simp add: createTicket_ticket)
    next
      case 2 then show ?thesis using a s unfolding agentsOk_def by blast
    qed
  qed
  moreover have "openIndexed ?m"
    unfolding openIndexed_def
  proof (intro allI impI)
    fix k' u ag assume "map_of (tickets ?m) k' = Some u"
      and s: "assignedAgent u = Some ag" "closedAt u = None"
    then consider "k' = ?k" "u = ?t" | "k' \<noteq> ?k" "map_of (tickets m) k' = Some u"
      unfolding look by (cases "k' = ?k") simp_all
    then show "indexed ?m k' ag"
    proof cases
      case 1 then show ?thesis using s by (simp add: createTicket_ticket)
    next
      case 2 then show ?thesis using o s unfolding openIndexed_def by simp
    qed
  qed
  moreover have "indexSound ?m"
    unfolding indexSound_def
  proof (intro allI impI)
    fix k' ag assume "map_of (ticketAssignments ?m) k' = Some ag"
    then have ta: "map_of (ticketAssignments m) k' = Some ag" by (simp add: createTicket_fields)
    then obtain u where u: "map_of (tickets m) k' = Some u" "assignedAgent u = Some ag"
      and ix: "indexed m k' ag"
      using i unfolding indexSound_def by blast
    have "k' \<noteq> ?k" using u(1) fresh by auto
    then have "map_of (tickets ?m) k' = Some u" using u(1) by (simp add: look)
    then show "(\<exists>t. map_of (tickets ?m) k' = Some t \<and> assignedAgent t = Some ag) \<and> indexed ?m k' ag"
      using u(2) ix by simp
  qed
  ultimately show ?thesis by (simp add: assignmentInvariant_def)
qed

lemma assignmentInvariant_addMessage:
  assumes "assignmentInvariant m"
  shows "assignmentInvariant (snd (addMessage k body sndr sid now mid m))"
proof (cases "map_of (tickets m) k")
  case None
  then show ?thesis using assms by (simp add: addMessage_def)
next
  case (Some t)
  have "status t = ''assigned'' \<longrightarrow> assignedAgent t \<noteq> None"
    using assms Some unfolding assignmentInvariant_def agentsOk_def by blast
  then show ?thesis
    using Some by (simp add: addMessage_def Let_def assignmentInvariant_rewrite [OF assms Some])
qed

subsection \<open>assignTicket\<close>

lemma in_set_add: "x \<in> set (set_add y xs) \<longleftrightarrow> x = y \<or> x \<in> set xs"
  by (auto simp: set_add_def)

lemma indexed_assignTicket_self:
  assumes "map_of (tickets m) k = Some t" and "map_of (agentSockets m) a = Some ag"
  shows "indexed (snd (assignTicket k a now m)) k a"
  unfolding indexed_def assignTicket_fields(2,3) [OF assms]
  by (simp add: in_set_add)

lemma indexed_assignTicket_other:
  assumes "map_of (tickets m) k = Some t" and "map_of (agentSockets m) a = Some ag"
    and "k' \<noteq> k" and "indexed m k' a'"
  shows "indexed (snd (assignTicket k a now m)) k' a'"
  using assms(3,4) unfolding indexed_def assignTicket_fields(2,3) [OF assms(1,2)]
  by (auto simp: in_set_add split: option.splits)

lemma assignmentInvariant_assignTicket:
  assumes "assignmentInvariant m"
  shows "assignmentInvariant (snd (assignTicket k a now m))"
proof (cases "map_of (tickets m) k = None \<or> map_of (agentSockets m) a = None")
  case True
  then show ?thesis using assms by (simp add: assignTicket_noop)
next
  case False
  then obtain t ag where t: "map_of (tickets m) k = Some t" and ag: "map_of (agentSockets m) a = Some ag"
    by auto
  let ?t = "t\<lparr>assignedAgent := Some a, status := ''assigned'', updatedAt := now\<rparr>"
  let ?m = "snd (assignTicket k a now m)"
  note f = assignTicket_fields [OF t ag, of now]
  have ko: "keysOk m" and ao: "agentsOk m" and oi: "openIndexed m" and ix: "indexSound m"
    using assms by (simp_all add: assignmentInvariant_def)
  have look: "map_of (tickets ?m) k' = (if k' = k then Some ?t else map_of (tickets m) k')" for k'
    by (simp add: f(1) update_conv')
  have "keysOk ?m"
    unfolding keysOk_def
  proof (intro allI impI)
    fix k' u assume "map_of (tickets ?m) k' = Some u"
    then consider "k' = k" "u = ?t" | "k' \<noteq> k" "map_of (tickets m) k' = Some u"
      unfolding look by (cases "k' = k") simp_all
    then show "ticket_id u = k' \<and> counterOf k' < ticketCounter ?m"
    proof cases
      case 1
      have "ticket_id t = k \<and> counterOf k < ticketCounter m"
        using ko t unfolding keysOk_def by blast
      then show ?thesis using 1 by (simp add: f(4))
    next
      case 2
      then have "ticket_id u = k' \<and> counterOf k' < ticketCounter m"
        using ko unfolding keysOk_def by blast
      then show ?thesis by (simp add: f(4))
    qed
  qed
  moreover have "agentsOk ?m"
    unfolding agentsOk_def
  proof (intro allI impI)
    fix k' u assume "map_of (tickets ?m) k' = Some u" and s: "status u = ''assigned''"
    then consider "k' = k" "u = ?t" | "k' \<noteq> k" "map_of (tickets m) k' = Some u"
      unfolding look by (cases "k' = k") simp_all
    then show "assignedAgent u \<noteq> None"
    proof cases
      case 1 then show ?thesis by simp
    next
      case 2 then show ?thesis using ao s unfolding agentsOk_def by blast
    qed
  qed
  moreover have "openIndexed ?m"
    unfolding openIndexed_def
  proof (intro allI impI)
    fix k' u a' assume "map_of (tickets ?m) k' = Some u"
      and s: "assignedAgent u = Some a'" "closedAt u = None"
    then consider "k' = k" "u = ?t" | "k' \<noteq> k" "map_of (tickets m) k' = Some u"
      unfolding look by (cases "k' = k") simp_all
    then show "indexed ?m k' a'"
    proof cases
      case 1
      then have "a' = a" using s by simp
      then show ?thesis using 1 indexed_assignTicket_self [OF t ag] by simp
    next
      case 2
      then have "indexed m k' a'" using oi s unfolding openIndexed_def by blast
      then show ?thesis using 2 indexed_assignTicket_other [OF t ag] by simp
    qed
  qed
  moreover have "indexSound ?m"
    unfolding indexSound_def
  proof (intro allI impI)
    fix k' a' assume h: "map_of (ticketAssignments ?m) k' = Some a'"
    show "(\<exists>t. map_of (tickets ?m) k' = Some t \<and> assignedAgent t = Some a') \<and> indexed ?m k' a'"
    proof (cases "k' = k")
      case True
      then have "a' = a" using h by (simp add: f(2))
      then show ?thesis using True indexed_assignTicket_self [OF t ag] by (simp add: look)
    next
      case False
      then have "map_of (ticketAssignments m) k' = Some a'" using h by (simp add: f(2))
      then obtain u where "map_of (tickets m) k' = Some u" "assignedAgent u = Some a'" "indexed m k' a'"
        using ix unfolding indexSound_def by blast
      then show ?thesis using False indexed_assignTicket_other [OF t ag] by (simp add: look)
    qed
  qed
  ultimately show ?thesis by (simp add: assignmentInvariant_def)
qed

subsection \<open>closeTicket\<close>

lemma indexed_closeTicket_other:
  assumes "map_of (tickets m) k = Some t" and "k' \<noteq> k" and "indexed m k' a'"
  shows "indexed (snd (closeTicket k by now m)) k' a'"
proof -
  from assms(3) obtain ts where ts: "map_of (ticketAssignments m) k' = Some a'"
      "map_of (agentTickets m) a' = Some ts" "k' \<in> set ts"
    by (auto simp: indexed_def split: option.splits)
  from closeTicket_agentTickets [OF ts(2), of k "by" now]
  obtain ts' where "map_of (agentTickets (snd (closeTicket k by now m))) a' = Some ts'"
      "set ts - {k} \<subseteq> set ts'" by blast
  then show ?thesis
    using ts assms(2) unfolding indexed_def closeTicket_fields(2) [OF assms(1)] by auto
qed

lemma assignmentInvariant_closeTicket:
  assumes "assignmentInvariant m"
  shows "assignmentInvariant (snd (closeTicket k by now m))"
proof (cases "map_of (tickets m) k")
  case None
  then show ?thesis using assms by (simp add: closeTicket_noop)
next
  case (Some t)
  let ?t = "t\<lparr>status := ''closed'', updatedAt := now, closedAt := Some now, closedBy := Some by\<rparr>"
  let ?m = "snd (closeTicket k by now m)"
  note f = closeTicket_fields [OF Some, of "by" now]
  have ko: "keysOk m" and ao: "agentsOk m" and oi: "openIndexed m" and ix: "indexSound m"
    using assms by (simp_all add: assignmentInvariant_def)
  have look: "map_of (tickets ?m) k' = (if k' = k then Some ?t else map_of (tickets m) k')" for k'
    by (simp add: f(1) update_conv')
  have "keysOk ?m"
    unfolding keysOk_def
  proof (intro allI impI)
    fix k' u assume "map_of (tickets ?m) k' = Some u"
    then consider "k' = k" "u = ?t" | "k' \<noteq> k" "map_of (tickets m) k' = Some u"
      unfolding look by (cases "k' = k") simp_all
    then show "ticket_id u = k' \<and> counterOf k' < ticketCounter ?m"
    proof cases
      case 1
      have "ticket_id t = k \<and> counterOf k < ticketCounter m"
        using ko Some unfolding keysOk_def by blast
      then show ?thesis using 1 by (simp add: f(3))
    next
      case 2
      then have "ticket_id u = k' \<and> counterOf k' < ticketCounter m"
        using ko unfolding keysOk_def by blast
      then show ?thesis by (simp add: f(3))
    qed
  qed
  moreover have "agentsOk ?m"
    unfolding agentsOk_def
  proof (intro allI impI)
    fix k' u assume "map_of (tickets ?m) k' = Some u" and s: "status u = ''assigned''"
    then consider "k' = k" "u = ?t" | "k' \<noteq> k" "map_of (tickets m) k' = Some u"
      unfolding look by (cases "k' = k") simp_all
    then show "assignedAgent u \<noteq> None"
    proof cases
      case 1 then show ?thesis using s by simp
    next
      case 2 then show ?thesis using ao s unfolding agentsOk_def by blast
    qed
  qed
  moreover have "openIndexed ?m"
    unfolding openIndexed_def
  proof (intro allI impI)
    fix k' u a' assume "map_of (tickets ?m) k' = Some u"
      and s: "assignedAgent u = Some a'" "closedAt u = None"
    then consider "k' = k" "u = ?t" | "k' \<noteq> k" "map_of (tickets m) k' = Some u"
      unfolding look by (cases "k' = k") simp_all
    then show "indexed ?m k' a'"
    proof cases
      case 1 then show ?thesis using s by simp
    next
      case 2
      then have "indexed m k' a'" using oi s unfolding openIndexed_def by blast
      then show ?thesis using 2 indexed_closeTicket_other [OF Some] by simp
    qed
  qed
  moreover have "indexSound ?m"
    unfolding indexSound_def
  proof (intro allI impI)
    fix k' a' assume h: "map_of (ticketAssignments ?m) k' = Some a'"
    then have ne: "k' \<noteq> k" and "map_of (ticketAssignments m) k' = Some a'"
      by (auto simp: f(2) split: if_splits)
    then obtain u where "map_of (tickets m) k' = Some u" "assignedAgent u = Some a'" "indexed m k' a'"
      using ix unfolding indexSound_def by blast
    then show "(\<exists>t. map_of (tickets ?m) k' = Some t \<and> assignedAgent t = Some a') \<and> indexed ?m k' a'"
      using ne indexed_closeTicket_other [OF Some] by (simp add: look)
  qed
  ultimately show ?thesis by (simp add: assignmentInvariant_def)
qed

subsection \<open>The handlers\<close>

lemma chat_message_mgr:
  "mgr (fst (chat_message sid text cb now mid sv)) =
     fst (tryAssign sid text
            (fst (getOrCreateTicket sid text now mid (touchCustomer sid now (mgr sv)))) now
            (snd (getOrCreateTicket sid text now mid (touchCustomer sid now (mgr sv)))))"
  by (simp add: chat_message_def Let_def case_prod_unfold)

lemma tryAssign_mgr:
  "fst (tryAssign sid text ticket now m) =
     (if status (deref m ticket) = ''open'' then
        (case getAvailableAgent m of
           None \<Rightarrow> m
         | Some a \<Rightarrow> snd (assignTicket (ticket_id ticket) (agent_id a) now m))
      else m)"
  by (simp add: tryAssign_def Let_def split: option.splits)

lemma assignmentInvariant_touchCustomer [simp]:
  "assignmentInvariant (touchCustomer sid now m) = assignmentInvariant m"
  by (simp add: touchCustomer_def split: option.splits)

lemma assignmentInvariant_getOrCreateTicket:
  assumes "assignmentInvariant m"
  shows "assignmentInvariant (snd (getOrCreateTicket sid text now mid m))"
  using assms
  by (simp add: getOrCreateTicket_def assignmentInvariant_createTicket
        assignmentInvariant_addMessage split: option.splits)

lemma assignmentInvariant_tryAssign:
  assumes "assignmentInvariant m"
  shows "assignmentInvariant (fst (tryAssign sid text ticket now m))"
  using assms
  by (simp add: tryAssign_mgr assignmentInvariant_assignTicket split: option.splits)

lemma assignmentInvariant_chat_message:
  assumes "assignmentInvariant (mgr sv)"
  shows "assignmentInvariant (mgr (fst (chat_message sid text cb now mid sv)))"
  unfolding chat_message_mgr
  by (rule assignmentInvariant_tryAssign, rule assignmentInvariant_getOrCreateTicket)
     (simp add: assms)

lemma assignmentInvariant_update_ticket_status:
  assumes "assignmentInvariant (mgr sv)"
  shows "assignmentInvariant (mgr (fst (update_ticket_status sid k newStatus now sv)))"
proof (cases "map_of (tickets (mgr sv)) k")
  case None
  then show ?thesis using assms by (simp add: update_ticket_status_def)
next
  case (Some t)
  note t = Some
  show ?thesis
  proof (cases "map_of (socketAgent sv) sid")
    case None
    then show ?thesis using assms t by (simp add: update_ticket_status_def)
  next
    case (Some agentId)
    show ?thesis
    proof (cases "sameAgent (assignedAgent t) (Some agentId)")
      case False
      then show ?thesis using assms t Some by (simp add: update_ticket_status_def)
    next
      case True
      let ?m1 = "(mgr sv)\<lparr>tickets :=
          AList.update k (t\<lparr>status := newStatus, updatedAt := now\<rparr>) (tickets (mgr sv))\<rparr>"
      have ag: "assignedAgent t \<noteq> None" using True by (simp add: sameAgent_def)
      have m1: "assignmentInvariant ?m1"
        by (rule assignmentInvariant_rewrite [OF assms t]) (simp_all add: ag)
      have m2: "assignmentInvariant (snd (closeTicket k agentId now ?m1))"
        by (rule assignmentInvariant_closeTicket [OF m1])
      show ?thesis
        using True t Some m1 m2
        by (cases "newStatus = ''closed''") (simp_all add: update_ticket_status_def Let_def)
    qed
  qed
qed

lemma assignmentInvariant_get_ticket_details:
  assumes "assignmentInvariant (mgr sv)"
  shows "assignmentInvariant (mgr (fst (get_ticket_details sid k sv)))"
proof (cases "map_of (tickets (mgr sv)) k")
  case None
  then show ?thesis using assms by (simp add: get_ticket_details_def)
next
  case (Some t)
  have "status t = ''assigned'' \<longrightarrow> assignedAgent t \<noteq> None"
    using assms Some unfolding assignmentInvariant_def agentsOk_def by blast
  then show ?thesis
    using assms Some
    by (simp add: get_ticket_details_def Let_def assignmentInvariant_rewrite [OF assms Some])
qed

lemma assignmentInvariant_send_message:
  assumes "assignmentInvariant (mgr sv)"
  shows "assignmentInvariant (mgr (fst (send_message sid k body now mid sv)))"
proof -
  have "assignmentInvariant (snd (addMessage k body ''agent'' (map_of (socketAgent sv) sid) now mid (mgr sv)))"
    by (rule assignmentInvariant_addMessage [OF assms])
  then show ?thesis
    using assms
    by (auto simp: send_message_def Let_def split: option.splits prod.splits)
qed

lemma assignmentInvariant_step:
  assumes "assignmentInvariant (mgr sv)"
  shows "assignmentInvariant (mgr (fst (step now mid e sv)))"
proof (cases e)
  case (ChatMessage sid body cb)
  then show ?thesis using assms by (simp add: assignmentInvariant_chat_message)
next
  case (SendMessage sid k body)
  then show ?thesis using assms by (simp add: assignmentInvariant_send_message)
next
  case (UpdateTicketStatus sid k st)
  then show ?thesis using assms by (simp add: assignmentInvariant_update_ticket_status)
next
  case (GetTicketDetails sid k)
  then show ?thesis using assms by (simp add: assignmentInvariant_get_ticket_details)
next
  case (CustomerConnection sid)
  then show ?thesis using assms by (simp add: customer_connection_def Let_def)
next
  case (CustomerTypes sid b)
  then show ?thesis using assms by (simp add: customer_typing_def split: option.splits)
next
  case (CustomerDisconnect sid)
  then show ?thesis using assms by (simp add: customer_disconnect_def Let_def)
next
  case (AgentConnection sid)
  then show ?thesis using assms by simp
next
  case (Authenticate sid a n d)
  then show ?thesis using assms by (simp add: authenticate_def Let_def)
next
  case (AgentTypes sid k b)
  then show ?thesis using assms by (simp add: agent_typing_def split: option.splits)
next
  case (UpdateStatus sid st)
  then show ?thesis using assms by (simp add: update_status_def Let_def split: option.splits)
next
  case (AgentDisconnect sid)
  then show ?thesis using assms
    by (simp add: agent_disconnect_def Let_def case_prod_unfold split: option.splits)
qed

lemma assignmentInvariant_run:
  assumes "assignmentInvariant (mgr sv)"
  shows "assignmentInvariant (mgr (run evs sv))"
  using assms
proof (induction evs arbitrary: sv)
  case Nil
  then show ?case by simp
next
  case (Cons x evs)
  obtain now mid e where x: "x = (now, mid, e)" by (cases x) auto
  show ?case unfolding x run.simps
    by (rule Cons.IH) (rule assignmentInvariant_step [OF Cons.prems])
qed

lemma assignmentInvariant_reachable: "assignmentInvariant (mgr (run evs newServer))"
  by (rule assignmentInvariant_run) (simp add: newServer_def assignmentInvariant_newManager)

text \<open>
  C1 (as amended): in every state reached from the empty server by any sequence of
  events, every ticket of the tickets map is stored under its own id and
  \<^item> if its status is \<open>assigned\<close> then its \<open>assignedAgent\<close> is not \<open>null\<close>;
  \<^item> if the index has the matching entry in both directions for an agent (the forward
    map sends the ticket id to the agent and the id is in the agent's set), then that
    agent is the ticket's \<open>assignedAgent\<close>;
  \<^item> if the ticket names an agent and has never been closed (\<open>closedAt\<close> is unset), then
    the index has the matching entry in both directions.
  The other directions of the claimed equivalence are left out. The conditions hold
  for the new manager and each of \<open>createTicket\<close>, \<open>assignTicket\<close>, \<open>addMessage\<close>,
  \<open>closeTicket\<close> and the \<open>update_ticket_status\<close> handler preserves them.
\<close>

theorem assignment_consistency:
  "(\<forall>k t. map_of (tickets (mgr (run evs newServer))) k = Some t \<longrightarrow>
      ticket_id t = k \<and>
      (status t = ''assigned'' \<longrightarrow> assignedAgent t \<noteq> None) \<and>
      (\<forall>a. indexed (mgr (run evs newServer)) k a \<longrightarrow> assignedAgent t = Some a) \<and>
      (\<forall>a. assignedAgent t = Some a \<and> closedAt t = None \<longrightarrow>
            indexed (mgr (run evs newServer)) k a)) \<and>
   (assignmentInvariant m \<longrightarrow>
      assignmentInvariant (snd (createTicket cid csid msg now mid m)) \<and>
      assignmentInvariant (snd (assignTicket k' a' now m)) \<and>
      assignmentInvariant (snd (addMessage k' body sndr sid' now mid m)) \<and>
      assignmentInvariant (snd (closeTicket k' by now m))) \<and>
   (assignmentInvariant (mgr sv) \<longrightarrow>
      assignmentInvariant (mgr (fst (update_ticket_status sid k' newStatus now sv))))"
proof (intro conjI allI impI)
  let ?m = "mgr (run evs newServer)"
  have inv: "assignmentInvariant ?m" by (rule assignmentInvariant_reachable)
  fix k t assume t: "map_of (tickets ?m) k = Some t"
  show "ticket_id t = k"
    using inv t unfolding assignmentInvariant_def keysOk_def by blast
  show "assignedAgent t \<noteq> None" if "status t = ''assigned''"
    using inv t that unfolding assignmentInvariant_def agentsOk_def by blast
  show "assignedAgent t = Some a" if "indexed ?m k a" for a
  proof -
    have "map_of (ticketAssignments ?m) k = Some a" using that by (simp add: indexed_def)
    then obtain u where "map_of (tickets ?m) k = Some u" "assignedAgent u = Some a"
      using inv unfolding assignmentInvariant_def indexSound_def by blast
    then show ?thesis using t by simp
  qed
  show "indexed ?m k a" if "assignedAgent t = Some a \<and> closedAt t = None" for a
    using inv t that unfolding assignmentInvariant_def openIndexed_def by blast
qed (simp_all add: assignmentInvariant_createTicket assignmentInvariant_assignTicket
       assignmentInvariant_addMessage assignmentInvariant_closeTicket
       assignmentInvariant_update_ticket_status)

theorem assignment_consistency_witness:
  "map_of (tickets (mgr (run helloRun newServer))) (TicketId 1003 1) = Some helloTicket \<and>
   ticket_id helloTicket = TicketId 1003 1 \<and>
   status helloTicket = ''assigned'' \<and> assignedAgent helloTicket = Some ''A1'' \<and>
   closedAt helloTicket = None \<and>
   indexed (mgr (run helloRun newServer)) (TicketId 1003 1) ''A1'' \<and>
   assignmentInvariant (mgr helloServer) \<and>
   assignmentInvariant (snd (closeTicket (TicketId 1003 1) ''A1'' 1004 (mgr helloServer))) \<and>
   assignmentInvariant
     (mgr (fst (update_ticket_status ''s1'' (TicketId 1003 1) ''resolved'' 1004 helloServer)))"
proof -
  have h1: "map_of (tickets (mgr (run helloRun newServer))) (TicketId 1003 1) = Some helloTicket"
    by (simp add: run_helloRun helloServer_def deskManager_def)
  have h2: "status helloTicket = ''assigned''" "assignedAgent helloTicket = Some ''A1''"
    "closedAt helloTicket = None" "ticket_id helloTicket = TicketId 1003 1"
    by (simp_all add: helloTicket_def)
  have h3: "assignmentInvariant (mgr helloServer)"
    using assignmentInvariant_reachable [of helloRun] by (simp add: run_helloRun)
  show ?thesis
    using h1 h2 h3
      assignment_consistency [of helloRun "mgr helloServer" "''c1''" "''c1''" None 1004 "''m4''"
        "TicketId 1003 1" "''A1''" "''Hi''" "''agent''" "Some ''A1''" "''A1''" helloServer "''s1''"
        "''resolved''"]
    by blast
qed

text \<open>
  The claim as stated fails after \<open>closeTicket\<close>: once Ann has closed the ticket its
  status is \<open>closed\<close> and the index holds no entry for it, but its \<open>assignedAgent\<close> is
  still Ann.
\<close>

theorem closed_ticket_keeps_agent_counterexample:
  "map_option status (map_of (tickets (mgr (run closedRun newServer))) (TicketId 1003 1))
     = Some ''closed'' \<and>
   map_option assignedAgent (map_of (tickets (mgr (run closedRun newServer))) (TicketId 1003 1))
     = Some (Some ''A1'') \<and>
   map_of (ticketAssignments (mgr (run closedRun newServer))) (TicketId 1003 1) = None \<and>
   map_of (agentTickets (mgr (run closedRun newServer))) ''A1'' = Some []"
  by (simp add: closedRun_def run_append run_helloRun)
     (simp add: helloServer_def deskManager_def helloTicket_def agentAnn_def
        update_ticket_status_def closeTicket_def sameAgent_def set_delete_def Let_def)

section \<open>One open or assigned ticket per customer socket\<close>

subsection \<open>The manager's operations\<close>

lemma oneActive_update:
  assumes "oneActive ts" and "map_of ts k = Some t"
    and "customerSocketId t' = customerSocketId t"
    and "isActive (status t') \<longrightarrow> isActive (status t)"
  shows "oneActive (AList.update k t' ts)"
  unfolding oneActive_def
proof (intro allI impI)
  fix k1 t1 k2 t2
  assume h1: "map_of (AList.update k t' ts) k1 = Some t1"
    and h2: "map_of (AList.update k t' ts) k2 = Some t2"
    and c: "customerSocketId t1 = customerSocketId t2"
    and a1: "isActive (status t1)" and a2: "isActive (status t2)"
  obtain u1 where u1: "map_of ts k1 = Some u1" "customerSocketId u1 = customerSocketId t1"
      "isActive (status u1)"
    using h1 a1 assms(2,3,4) by (cases "k1 = k") (auto simp: update_conv')
  obtain u2 where u2: "map_of ts k2 = Some u2" "customerSocketId u2 = customerSocketId t2"
      "isActive (status u2)"
    using h2 a2 assms(2,3,4) by (cases "k2 = k") (auto simp: update_conv')
  show "k1 = k2"
    using assms(1) u1 u2 c unfolding oneActive_def by metis
qed

lemma oneActive_update_new:
  assumes "oneActive ts"
    and "\<forall>k' u. map_of ts k' = Some u \<longrightarrow>
           \<not> (customerSocketId u = customerSocketId t' \<and> isActive (status u))"
  shows "oneActive (AList.update k t' ts)"
  unfolding oneActive_def
proof (intro allI impI)
  fix k1 t1 k2 t2
  assume h1: "map_of (AList.update k t' ts) k1 = Some t1"
    and h2: "map_of (AList.update k t' ts) k2 = Some t2"
    and c: "customerSocketId t1 = customerSocketId t2"
    and a1: "isActive (status t1)" and a2: "isActive (status t2)"
  show "k1 = k2"
  proof (cases "k1 = k")
    case True
    then have t1: "t1 = t'" using h1 by (simp add: update_conv')
    show ?thesis
    proof (cases "k2 = k")
      case True then show ?thesis using \<open>k1 = k\<close> by simp
    next
      case False
      then have "map_of ts k2 = Some t2" using h2 by (simp add: update_conv')
      then show ?thesis using assms(2) c a2 t1 by metis
    qed
  next
    case False
    then have m1: "map_of ts k1 = Some t1" using h1 by (simp add: update_conv')
    show ?thesis
    proof (cases "k2 = k")
      case True
      then have "t2 = t'" using h2 by (simp add: update_conv')
      then show ?thesis using assms(2) m1 c a1 by metis
    next
      case False
      then have "map_of ts k2 = Some t2" using h2 by (simp add: update_conv')
      then show ?thesis using assms(1) m1 c a1 a2 unfolding oneActive_def by metis
    qed
  qed
qed

lemma getTicketByCustomer_None:
  assumes "getTicketByCustomer csid m = None" and "map_of (tickets m) k = Some u"
  shows "\<not> (customerSocketId u = csid \<and> isActive (status u))"
proof -
  have "find (\<lambda>(tid, t). customerSocketId t = csid \<and> isActive (status t)) (tickets m) = None"
    using assms(1) by (simp add: getTicketByCustomer_def)
  then have "\<forall>x\<in>set (tickets m). \<not> (\<lambda>(tid, t). customerSocketId t = csid \<and> isActive (status t)) x"
    unfolding find_None_iff by blast
  moreover have "(k, u) \<in> set (tickets m)" using assms(2) by (rule map_of_SomeD)
  ultimately show ?thesis by auto
qed

lemma oneActive_createTicket:
  assumes "oneActive (tickets m)" and "getTicketByCustomer csid m = None"
  shows "oneActive (tickets (snd (createTicket cid csid msg now mid m)))"
  unfolding createTicket_fields
  by (rule oneActive_update_new [OF assms(1)])
     (simp add: createTicket_ticket getTicketByCustomer_None [OF assms(2)])

lemma oneActive_addMessage:
  assumes "oneActive (tickets m)"
  shows "oneActive (tickets (snd (addMessage k body sndr sid now mid m)))"
proof (cases "map_of (tickets m) k")
  case None
  then show ?thesis using assms by (simp add: addMessage_def)
next
  case (Some t)
  then show ?thesis
    by (simp add: addMessage_def Let_def oneActive_update [OF assms Some])
qed

lemma oneActive_assignTicket:
  assumes "oneActive (tickets m)" and "\<forall>t. map_of (tickets m) k = Some t \<longrightarrow> isActive (status t)"
  shows "oneActive (tickets (snd (assignTicket k a now m)))"
proof (cases "map_of (tickets m) k = None \<or> map_of (agentSockets m) a = None")
  case True
  then show ?thesis using assms(1) by (simp add: assignTicket_noop)
next
  case False
  then obtain t ag where t: "map_of (tickets m) k = Some t" and ag: "map_of (agentSockets m) a = Some ag"
    by auto
  show ?thesis
    unfolding assignTicket_fields(1) [OF t ag]
    by (rule oneActive_update [OF assms(1) t]) (use assms(2) t in simp_all)
qed

lemma oneActive_closeTicket:
  assumes "oneActive (tickets m)"
  shows "oneActive (tickets (snd (closeTicket k by now m)))"
proof (cases "map_of (tickets m) k")
  case None
  then show ?thesis using assms by (simp add: closeTicket_noop)
next
  case (Some t)
  show ?thesis
    unfolding closeTicket_fields(1) [OF Some]
    by (rule oneActive_update [OF assms Some]) (simp_all add: isActive_def)
qed

subsection \<open>The keys of the tickets map\<close>

lemma keys_update_existing:
  assumes "map_of ts k = Some t"
  shows "map fst (AList.update k v ts) = map fst ts"
proof -
  have "(k, t) \<in> set ts" using assms by (rule map_of_SomeD)
  then have "k \<in> set (map fst ts)" by force
  then show ?thesis by (simp add: update_keys)
qed

lemma keys_addMessage:
  "map fst (tickets (snd (addMessage k body sndr sid now mid m))) = map fst (tickets m)"
  by (cases "map_of (tickets m) k") (simp_all add: addMessage_def Let_def keys_update_existing)

lemma keys_assignTicket:
  "map fst (tickets (snd (assignTicket k a now m))) = map fst (tickets m)"
proof (cases "map_of (tickets m) k = None \<or> map_of (agentSockets m) a = None")
  case True
  then show ?thesis by (simp add: assignTicket_noop)
next
  case False
  then obtain t ag where t: "map_of (tickets m) k = Some t" and ag: "map_of (agentSockets m) a = Some ag"
    by auto
  show ?thesis unfolding assignTicket_fields(1) [OF t ag] by (rule keys_update_existing [OF t])
qed

lemma keys_closeTicket:
  "map fst (tickets (snd (closeTicket k by now m))) = map fst (tickets m)"
proof (cases "map_of (tickets m) k")
  case None
  then show ?thesis by (simp add: closeTicket_noop)
next
  case (Some t)
  show ?thesis unfolding closeTicket_fields(1) [OF Some] by (rule keys_update_existing [OF Some])
qed

lemma keys_tryAssign:
  "map fst (tickets (fst (tryAssign sid text ticket now m))) = map fst (tickets m)"
  by (simp add: tryAssign_mgr keys_assignTicket split: option.splits)

lemma distinct_keys_getOrCreateTicket:
  assumes "distinct (map fst (tickets m))"
  shows "distinct (map fst (tickets (snd (getOrCreateTicket sid text now mid m))))"
  using assms
  by (simp add: getOrCreateTicket_def createTicket_fields distinct_update keys_addMessage
        split: option.splits)

lemma distinct_keys_step:
  assumes "distinct (map fst (tickets (mgr sv)))"
  shows "distinct (map fst (tickets (mgr (fst (step now mid e sv)))))"
proof (cases e)
  case (ChatMessage sid body cb)
  have "distinct (map fst (tickets (snd (getOrCreateTicket sid body now mid
           (touchCustomer sid now (mgr sv))))))"
    by (rule distinct_keys_getOrCreateTicket) (simp add: assms)
  then show ?thesis using ChatMessage by (simp add: chat_message_mgr keys_tryAssign)
next
  case (SendMessage sid k body)
  have "map fst (tickets (snd (addMessage k body ''agent'' (map_of (socketAgent sv) sid) now mid (mgr sv))))
      = map fst (tickets (mgr sv))"
    by (rule keys_addMessage)
  then show ?thesis using SendMessage assms
    by (auto simp: send_message_def Let_def split: option.splits prod.splits)
next
  case (UpdateTicketStatus sid k st)
  then show ?thesis using assms
    by (simp add: update_ticket_status_def Let_def keys_closeTicket keys_update_existing
          split: option.splits)
next
  case (GetTicketDetails sid k)
  then show ?thesis using assms
    by (simp add: get_ticket_details_def Let_def keys_update_existing split: option.splits)
next
  case (CustomerConnection sid)
  then show ?thesis using assms by (simp add: customer_connection_def Let_def)
next
  case (CustomerTypes sid b)
  then show ?thesis using assms by (simp add: customer_typing_def split: option.splits)
next
  case (CustomerDisconnect sid)
  then show ?thesis using assms by (simp add: customer_disconnect_def Let_def)
next
  case (AgentConnection sid)
  then show ?thesis using assms by simp
next
  case (Authenticate sid a n d)
  then show ?thesis using assms by (simp add: authenticate_def Let_def)
next
  case (AgentTypes sid k b)
  then show ?thesis using assms by (simp add: agent_typing_def split: option.splits)
next
  case (UpdateStatus sid st)
  then show ?thesis using assms by (simp add: update_status_def Let_def split: option.splits)
next
  case (AgentDisconnect sid)
  then show ?thesis using assms
    by (simp add: agent_disconnect_def Let_def case_prod_unfold split: option.splits)
qed

lemma distinct_keys_run:
  assumes "distinct (map fst (tickets (mgr sv)))"
  shows "distinct (map fst (tickets (mgr (run evs sv))))"
  using assms
proof (induction evs arbitrary: sv)
  case Nil
  then show ?case by simp
next
  case (Cons x evs)
  obtain now mid e where x: "x = (now, mid, e)" by (cases x) auto
  show ?case unfolding x run.simps
    by (rule Cons.IH) (rule distinct_keys_step [OF Cons.prems])
qed

subsection \<open>The handlers\<close>

lemma deref_open_active:
  assumes "status (deref m t) = ''open''"
  shows "\<forall>u. map_of (tickets m) (ticket_id t) = Some u \<longrightarrow> isActive (status u)"
  using assms by (auto simp: deref_def isActive_def)

lemma oneActive_getOrCreateTicket:
  assumes "oneActive (tickets m)"
  shows "oneActive (tickets (snd (getOrCreateTicket sid text now mid m)))"
proof (cases "getTicketByCustomer sid m")
  case None
  then show ?thesis by (simp add: getOrCreateTicket_def oneActive_createTicket [OF assms None])
next
  case (Some t)
  then show ?thesis by (simp add: getOrCreateTicket_def oneActive_addMessage [OF assms])
qed

lemma oneActive_tryAssign:
  assumes "oneActive (tickets m)"
  shows "oneActive (tickets (fst (tryAssign sid text ticket now m)))"
proof (cases "status (deref m ticket) = ''open''")
  case False
  then show ?thesis using assms by (simp add: tryAssign_mgr)
next
  case True
  have "oneActive (tickets (snd (assignTicket (ticket_id ticket) a now m)))" for a
    by (rule oneActive_assignTicket [OF assms deref_open_active [OF True]])
  then show ?thesis using assms True by (simp add: tryAssign_mgr split: option.splits)
qed

lemma oneActive_chat_message:
  assumes "oneActive (tickets (mgr sv))"
  shows "oneActive (tickets (mgr (fst (chat_message sid text cb now mid sv))))"
  unfolding chat_message_mgr
  by (rule oneActive_tryAssign, rule oneActive_getOrCreateTicket) (simp add: assms)

lemma oneActive_update_ticket_status:
  assumes "oneActive (tickets (mgr sv))"
    and "\<not> reopens sv (UpdateTicketStatus sid k newStatus)"
  shows "oneActive (tickets (mgr (fst (update_ticket_status sid k newStatus now sv))))"
proof (cases "map_of (tickets (mgr sv)) k")
  case None
  then show ?thesis using assms(1) by (simp add: update_ticket_status_def)
next
  case (Some t)
  note t = Some
  show ?thesis
  proof (cases "map_of (socketAgent sv) sid")
    case None
    then show ?thesis using assms(1) t by (simp add: update_ticket_status_def)
  next
    case (Some agentId)
    show ?thesis
    proof (cases "sameAgent (assignedAgent t) (Some agentId)")
      case False
      then show ?thesis using assms(1) t Some by (simp add: update_ticket_status_def)
    next
      case True
      let ?m1 = "(mgr sv)\<lparr>tickets :=
          AList.update k (t\<lparr>status := newStatus, updatedAt := now\<rparr>) (tickets (mgr sv))\<rparr>"
      have keep: "isActive newStatus \<longrightarrow> isActive (status t)"
        using assms(2) t Some True by (simp add: reopens_def)
      have "oneActive (AList.update k (t\<lparr>status := newStatus, updatedAt := now\<rparr>) (tickets (mgr sv)))"
        by (rule oneActive_update [OF assms(1) t]) (simp_all add: keep)
      then have m1: "oneActive (tickets ?m1)" by simp
      have m2: "oneActive (tickets (snd (closeTicket k agentId now ?m1)))"
        by (rule oneActive_closeTicket [OF m1])
      show ?thesis
        using True t Some m1 m2
        by (cases "newStatus = ''closed''") (simp_all add: update_ticket_status_def Let_def)
    qed
  qed
qed

lemma oneActive_get_ticket_details:
  assumes "oneActive (tickets (mgr sv))"
  shows "oneActive (tickets (mgr (fst (get_ticket_details sid k sv))))"
proof (cases "map_of (tickets (mgr sv)) k")
  case None
  then show ?thesis using assms by (simp add: get_ticket_details_def)
next
  case (Some t)
  then show ?thesis
    using assms by (simp add: get_ticket_details_def Let_def oneActive_update [OF assms Some])
qed

lemma oneActive_send_message:
  assumes "oneActive (tickets (mgr sv))"
  shows "oneActive (tickets (mgr (fst (send_message sid k body now mid sv))))"
proof -
  have "oneActive (tickets (snd (addMessage k body ''agent'' (map_of (socketAgent sv) sid) now mid (mgr sv))))"
    by (rule oneActive_addMessage [OF assms])
  then show ?thesis
    using assms
    by (auto simp: send_message_def Let_def split: option.splits prod.splits)
qed

lemma oneActive_step:
  assumes "oneActive (tickets (mgr sv))" and "\<not> reopens sv e"
  shows "oneActive (tickets (mgr (fst (step now mid e sv))))"
proof (cases e)
  case (ChatMessage sid body cb)
  then show ?thesis using assms(1) by (simp add: oneActive_chat_message)
next
  case (SendMessage sid k body)
  then show ?thesis using assms(1) by (simp add: oneActive_send_message)
next
  case (UpdateTicketStatus sid k st)
  then show ?thesis using assms by (simp add: oneActive_update_ticket_status)
next
  case (GetTicketDetails sid k)
  then show ?thesis using assms(1) by (simp add: oneActive_get_ticket_details)
next
  case (CustomerConnection sid)
  then show ?thesis using assms(1) by (simp add: customer_connection_def Let_def)
next
  case (CustomerTypes sid b)
  then show ?thesis using assms(1) by (simp add: customer_typing_def split: option.splits)
next
  case (CustomerDisconnect sid)
  then show ?thesis using assms(1) by (simp add: customer_disconnect_def Let_def)
next
  case (AgentConnection sid)
  then show ?thesis using assms(1) by simp
next
  case (Authenticate sid a n d)
  then show ?thesis using assms(1) by (simp add: authenticate_def Let_def)
next
  case (AgentTypes sid k b)
  then show ?thesis using assms(1) by (simp add: agent_typing_def split: option.splits)
next
  case (UpdateStatus sid st)
  then show ?thesis using assms(1) by (simp add: update_status_def Let_def split: option.splits)
next
  case (AgentDisconnect sid)
  then show ?thesis using assms(1)
    by (simp add: agent_disconnect_def Let_def case_prod_unfold split: option.splits)
qed

lemma oneActive_run:
  assumes "oneActive (tickets (mgr sv))" and "neverReopens evs sv"
  shows "oneActive (tickets (mgr (run evs sv)))"
  using assms
proof (induction evs arbitrary: sv)
  case Nil
  then show ?case by simp
next
  case (Cons x evs)
  obtain now mid e where x: "x = (now, mid, e)" by (cases x) auto
  have "oneActive (tickets (mgr (fst (step now mid e sv))))"
    using Cons.prems unfolding x by (simp add: oneActive_step)
  moreover have "neverReopens evs (fst (step now mid e sv))"
    using Cons.prems unfolding x by simp
  ultimately show ?case unfolding x run.simps by (rule Cons.IH)
qed

subsection \<open>Counting the active tickets\<close>

lemma filter_at_most_one:
  assumes "distinct (map fst xs)"
    and "\<And>x y. x \<in> set xs \<Longrightarrow> y \<in> set xs \<Longrightarrow> P x \<Longrightarrow> P y \<Longrightarrow> fst x = fst y"
  shows "length (filter P xs) \<le> 1"
  using assms
proof (induction xs)
  case Nil
  then show ?case by simp
next
  case (Cons x xs)
  have d: "distinct (map fst xs)" and nx: "fst x \<notin> fst ` set xs"
    using Cons.prems(1) by simp_all
  have ih: "length (filter P xs) \<le> 1"
  proof (rule Cons.IH [OF d])
    fix a b assume "a \<in> set xs" "b \<in> set xs" "P a" "P b"
    then show "fst a = fst b" using Cons.prems(2) [of a b] by simp
  qed
  show ?case
  proof (cases "P x")
    case False
    then show ?thesis using ih by simp
  next
    case True
    have "\<not> P y" if "y \<in> set xs" for y
    proof
      assume "P y"
      have "fst x = fst y" using Cons.prems(2) [of x y] True \<open>P y\<close> that by simp
      then have "fst x \<in> fst ` set xs" using that by (metis imageI)
      then show False using nx by simp
    qed
    then have "filter P xs = []" unfolding filter_empty_conv by blast
    then show ?thesis using True by simp
  qed
qed

lemma oneActiveD:
  assumes "oneActive ts" and "map_of ts k1 = Some t1" and "map_of ts k2 = Some t2"
    and "customerSocketId t1 = customerSocketId t2"
    and "isActive (status t1)" and "isActive (status t2)"
  shows "k1 = k2"
  using assms unfolding oneActive_def by blast

lemma activeFor_at_most_one:
  assumes "distinct (map fst (tickets m))" and "oneActive (tickets m)"
  shows "length (activeFor csid m) \<le> 1"
  unfolding activeFor_def
proof (rule filter_at_most_one [OF assms(1)])
  fix x y
  assume x: "x \<in> set (tickets m)" and y: "y \<in> set (tickets m)"
    and px: "case x of (tid, t) \<Rightarrow> customerSocketId t = csid \<and> isActive (status t)"
    and py: "case y of (tid, t) \<Rightarrow> customerSocketId t = csid \<and> isActive (status t)"
  obtain k1 t1 where x': "x = (k1, t1)" by (cases x)
  obtain k2 t2 where y': "y = (k2, t2)" by (cases y)
  have m1: "map_of (tickets m) k1 = Some t1" using assms(1) x x' by simp
  have m2: "map_of (tickets m) k2 = Some t2" using assms(1) y y' by simp
  have c: "customerSocketId t1 = customerSocketId t2" using px py x' y' by simp
  have a1: "isActive (status t1)" using px x' by simp
  have a2: "isActive (status t2)" using py y' by simp
  have "k1 = k2" by (rule oneActiveD [OF assms(2) m1 m2 c a1 a2])
  then show "fst x = fst y" using x' y' by simp
qed

lemma chat_message_reuses:
  assumes "getTicketByCustomer sid (mgr sv) = Some t"
  shows "map fst (tickets (mgr (fst (chat_message sid text cb now mid sv)))) = map fst (tickets (mgr sv))"
proof -
  have "getTicketByCustomer sid (touchCustomer sid now (mgr sv)) = getTicketByCustomer sid (mgr sv)"
    by (rule getTicketByCustomer_cong) simp
  then have "map fst (tickets (snd (getOrCreateTicket sid text now mid (touchCustomer sid now (mgr sv)))))
      = map fst (tickets (mgr sv))"
    using assms by (simp add: getOrCreateTicket_def keys_addMessage)
  then show ?thesis by (simp add: chat_message_mgr keys_tryAssign)
qed

text \<open>
  C2 (as amended): take any sequence of customer events, agent events and disconnects,
  run from the empty server, in which no accepted \<open>update_ticket_status\<close> event gives the
  status \<open>open\<close> or \<open>assigned\<close> to a ticket whose status is neither. In the state it
  reaches, for every customer socket id at most one ticket with that
  \<open>customerSocketId\<close> has status \<open>open\<close> or \<open>assigned\<close>. The \<open>chat_message\<close> handler adds no
  ticket when \<open>getTicketByCustomer\<close> finds one for the socket.
\<close>

theorem one_active_ticket_per_customer:
  "(neverReopens evs newServer \<longrightarrow> length (activeFor csid (mgr (run evs newServer))) \<le> 1) \<and>
   (\<forall>t. getTicketByCustomer sid (mgr sv) = Some t \<longrightarrow>
      map fst (tickets (mgr (fst (chat_message sid text cb now mid sv)))) = map fst (tickets (mgr sv)))"
proof (intro conjI allI impI)
  assume nr: "neverReopens evs newServer"
  have d: "distinct (map fst (tickets (mgr (run evs newServer))))"
    by (rule distinct_keys_run) (simp add: newServer_def newManager_def)
  have "oneActive (tickets (mgr newServer))"
    by (simp add: newServer_def newManager_def oneActive_def)
  then have "oneActive (tickets (mgr (run evs newServer)))"
    using nr by (rule oneActive_run)
  with d show "length (activeFor csid (mgr (run evs newServer))) \<le> 1"
    by (rule activeFor_at_most_one)
next
  fix t assume "getTicketByCustomer sid (mgr sv) = Some t"
  then show "map fst (tickets (mgr (fst (chat_message sid text cb now mid sv)))) = map fst (tickets (mgr sv))"
    by (rule chat_message_reuses)
qed

theorem one_active_ticket_per_customer_witness:
  "neverReopens againRun newServer \<and>
   map (\<lambda>(k, t). (k, status t)) (activeFor ''c1'' (mgr (run againRun newServer)))
     = [(TicketId 1005 2, ''assigned'')] \<and>
   length (activeFor ''c1'' (mgr (run againRun newServer))) \<le> 1 \<and>
   getTicketByCustomer ''c1'' (mgr helloServer) = Some helloTicket \<and>
   map fst (tickets (mgr helloServer)) = [TicketId 1003 1] \<and>
   map fst (tickets (mgr (fst (chat_message ''c1'' ''more'' False 1004 ''m4'' helloServer))))
     = [TicketId 1003 1]"
proof -
  have h1: "neverReopens againRun newServer"
    by (simp add: againRun_def closedRun_def helloRun_def reopens_def newServer_def newManager_def
          handler_defs Let_def)
  have h2: "map (\<lambda>(k, t). (k, status t)) (activeFor ''c1'' (mgr (run againRun newServer)))
     = [(TicketId 1005 2, ''assigned'')]"
    by (simp add: againRun_def closedRun_def helloRun_def newServer_def newManager_def
          activeFor_def handler_defs Let_def)
  have h3: "getTicketByCustomer ''c1'' (mgr helloServer) = Some helloTicket"
    by (simp add: helloServer_def deskManager_def helloTicket_def getTicketByCustomer_def
          isActive_def)
  have h4: "map fst (tickets (mgr helloServer)) = [TicketId 1003 1]"
    by (simp add: helloServer_def deskManager_def)
  show ?thesis
    using h1 h2 h3 h4
      one_active_ticket_per_customer [of againRun "''c1''" "''c1''" helloServer "''more''" False
        1004 "''m4''"]
    by simp
qed

text \<open>
  The claim as stated fails when an agent reopens a closed ticket: Ann closes the
  customer's ticket, the customer writes again and gets a second ticket, and Ann then
  sets the status of the first one to \<open>open\<close>. The handler accepts this because the
  closed ticket still names Ann, and the customer socket has two active tickets.
\<close>

theorem reopened_ticket_counterexample:
  "map (\<lambda>(k, t). (k, customerSocketId t, status t)) (activeFor ''c1'' (mgr (run reopenRun newServer)))
     = [(TicketId 1003 1, ''c1'', ''open''), (TicketId 1005 2, ''c1'', ''assigned'')] \<and>
   length (activeFor ''c1'' (mgr (run reopenRun newServer))) = 2"
  by (simp add: reopenRun_def againRun_def closedRun_def helloRun_def newServer_def newManager_def
        activeFor_def handler_defs Let_def)

section \<open>Agent events on a ticket that is not the agent's\<close>

text \<open>What the guard \<open>ticket.assignedAgent === agentId\<close> of the four handlers rejects.\<close>

lemma guard_rejects:
  assumes "map_of (tickets (mgr sv)) tid = Some t"
    and "\<not> sameAgent (assignedAgent t) (map_of (socketAgent sv) sid)"
  shows "fst (send_message sid tid text now mid sv) = sv \<and>
     (\<exists>reason. snd (send_message sid tid text now mid sv) = [(ToSocket sid, ErrorEvent reason)]) \<and>
     update_ticket_status sid tid newStatus now sv = (sv, []) \<and>
     agent_typing sid tid isTyping sv = (sv, []) \<and>
     get_ticket_details sid tid sv = (sv, [])"
  using assms
  by (auto simp: send_message_def update_ticket_status_def agent_typing_def get_ticket_details_def
        Let_def split: option.splits)

lemma run_twoAgentsRun:
  "run twoAgentsRun newServer =
     fst (authenticate ''s2'' ''A2'' ''Bob'' ''Billing'' 1005 helloServer)"
  by (simp add: twoAgentsRun_def run_append run_helloRun)

lemma twoAgents_facts:
  "map_of (tickets (mgr (run twoAgentsRun newServer))) (TicketId 1003 1) = Some helloTicket"
  "map_of (socketAgent (run twoAgentsRun newServer)) ''s2'' = Some ''A2''"
  "map_of (ticketAssignments (mgr (run twoAgentsRun newServer))) (TicketId 1003 1) = Some ''A1''"
  by (simp_all add: run_twoAgentsRun authenticate_def Let_def helloServer_def deskManager_def)

text \<open>
  C8 (as amended): in every reachable state, when an agent-channel event
  (\<open>send_message\<close>, \<open>update_ticket_status\<close>, \<open>typing\<close>, \<open>get_ticket_details\<close>) names a ticket
  that exists, has never been closed, and is not assigned to the requesting agent in
  the index (the socket is not authenticated, or the index has no matching entry in
  both directions for its agent), the handler changes nothing in the state;
  \<open>send_message\<close> answers the socket with one \<open>error\<close> event and the other three emit
  nothing.
\<close>

theorem unassigned_ticket_no_mutation:
  assumes "map_of (tickets (mgr (run evs newServer))) tid = Some t"
    and "closedAt t = None"
    and "\<forall>a. map_of (socketAgent (run evs newServer)) sid = Some a \<longrightarrow>
           \<not> indexed (mgr (run evs newServer)) tid a"
  shows "fst (send_message sid tid text now mid (run evs newServer)) = run evs newServer \<and>
     (\<exists>reason. snd (send_message sid tid text now mid (run evs newServer))
        = [(ToSocket sid, ErrorEvent reason)]) \<and>
     update_ticket_status sid tid newStatus now (run evs newServer) = (run evs newServer, []) \<and>
     agent_typing sid tid isTyping (run evs newServer) = (run evs newServer, []) \<and>
     get_ticket_details sid tid (run evs newServer) = (run evs newServer, [])"
proof -
  let ?sv = "run evs newServer"
  have inv: "openIndexed (mgr ?sv)"
    using assignmentInvariant_reachable [of evs] by (simp add: assignmentInvariant_def)
  have "\<not> sameAgent (assignedAgent t) (map_of (socketAgent ?sv) sid)"
  proof (cases "map_of (socketAgent ?sv) sid")
    case None
    then show ?thesis by (simp add: sameAgent_def)
  next
    case (Some a)
    then have "\<not> indexed (mgr ?sv) tid a" using assms(3) by blast
    then have "assignedAgent t \<noteq> Some a"
      using inv assms(1,2) unfolding openIndexed_def by blast
    then show ?thesis using Some by (simp add: sameAgent_def)
  qed
  with assms(1) show ?thesis by (rule guard_rejects)
qed

theorem unassigned_ticket_no_mutation_witness:
  "map_of (tickets (mgr (run twoAgentsRun newServer))) (TicketId 1003 1) = Some helloTicket \<and>
   closedAt helloTicket = None \<and>
   map_of (socketAgent (run twoAgentsRun newServer)) ''s2'' = Some ''A2'' \<and>
   \<not> indexed (mgr (run twoAgentsRun newServer)) (TicketId 1003 1) ''A2'' \<and>
   fst (send_message ''s2'' (TicketId 1003 1) ''Hi'' 2000 ''m9'' (run twoAgentsRun newServer))
     = run twoAgentsRun newServer \<and>
   (\<exists>reason. snd (send_message ''s2'' (TicketId 1003 1) ''Hi'' 2000 ''m9'' (run twoAgentsRun newServer))
      = [(ToSocket ''s2'', ErrorEvent reason)]) \<and>
   update_ticket_status ''s2'' (TicketId 1003 1) ''closed'' 2000 (run twoAgentsRun newServer)
     = (run twoAgentsRun newServer, []) \<and>
   agent_typing ''s2'' (TicketId 1003 1) True (run twoAgentsRun newServer)
     = (run twoAgentsRun newServer, []) \<and>
   get_ticket_details ''s2'' (TicketId 1003 1) (run twoAgentsRun newServer)
     = (run twoAgentsRun newServer, [])"
proof -
  note h1 = twoAgents_facts(1)
  have h2: "closedAt helloTicket = None" by (simp add: helloTicket_def)
  have h3: "\<not> indexed (mgr (run twoAgentsRun newServer)) (TicketId 1003 1) ''A2''"
    using twoAgents_facts(3) by (simp add: indexed_def)
  have h4: "\<forall>a. map_of (socketAgent (run twoAgentsRun newServer)) ''s2'' = Some a \<longrightarrow>
           \<not> indexed (mgr (run twoAgentsRun newServer)) (TicketId 1003 1) a"
    using h3 twoAgents_facts(2) by simp
  show ?thesis
    using h1 h2 h3 twoAgents_facts(2)
      unassigned_ticket_no_mutation [OF h1 h2 h4, of "''Hi''" 2000 "''m9''" "''closed''" True]
    by simp
qed

text \<open>
  The claim as stated fails in two ways. Three of the handlers stay silent: Bob's socket
  asks to close Ann's ticket, to show typing on it and to read it, and gets no event
  back. And a ticket that its agent has closed is no longer assigned in the index but
  still names the agent, so the handlers go on serving her: after Ann has closed the
  ticket her \<open>send_message\<close> appends a second message and is confirmed, not refused.
\<close>

theorem foreign_ticket_error_counterexample:
  "map_of (tickets (mgr deskServer)) (TicketId 1003 1) = Some helloTicket \<and>
   \<not> sameAgent (assignedAgent helloTicket) (map_of (socketAgent deskServer) ''s2'') \<and>
   snd (update_ticket_status ''s2'' (TicketId 1003 1) ''closed'' 2000 deskServer) = [] \<and>
   snd (agent_typing ''s2'' (TicketId 1003 1) True deskServer) = [] \<and>
   snd (get_ticket_details ''s2'' (TicketId 1003 1) deskServer) = [] \<and>
   map_of (socketAgent (run closedRun newServer)) ''s1'' = Some ''A1'' \<and>
   map_of (ticketAssignments (mgr (run closedRun newServer))) (TicketId 1003 1) = None \<and>
   map_of (agentTickets (mgr (run closedRun newServer))) ''A1'' = Some [] \<and>
   map_option (\<lambda>t. length (messages t))
     (map_of (tickets (mgr (run closedRun newServer))) (TicketId 1003 1)) = Some 1 \<and>
   map_option (\<lambda>t. length (messages t))
     (map_of (tickets (mgr (fst (send_message ''s1'' (TicketId 1003 1) ''Hi'' 2000 ''m9''
         (run closedRun newServer))))) (TicketId 1003 1)) = Some 2 \<and>
   snd (send_message ''s1'' (TicketId 1003 1) ''Hi'' 2000 ''m9'' (run closedRun newServer)) =
     [(ToCustomer ''c1'', ChatResponse ''Hi'' ''agent'' ''response''),
      (ToSocket ''s1'', MessageSent (TicketId 1003 1) ''m9'' 2000)]"
proof -
  have a: "map_of (tickets (mgr deskServer)) (TicketId 1003 1) = Some helloTicket \<and>
   \<not> sameAgent (assignedAgent helloTicket) (map_of (socketAgent deskServer) ''s2'') \<and>
   snd (update_ticket_status ''s2'' (TicketId 1003 1) ''closed'' 2000 deskServer) = [] \<and>
   snd (agent_typing ''s2'' (TicketId 1003 1) True deskServer) = [] \<and>
   snd (get_ticket_details ''s2'' (TicketId 1003 1) deskServer) = []"
    by (simp add: update_ticket_status_def agent_typing_def get_ticket_details_def
        deskServer_def deskManager_def helloTicket_def sameAgent_def)
  have b: "map_of (socketAgent (run closedRun newServer)) ''s1'' = Some ''A1'' \<and>
   map_of (ticketAssignments (mgr (run closedRun newServer))) (TicketId 1003 1) = None \<and>
   map_of (agentTickets (mgr (run closedRun newServer))) ''A1'' = Some [] \<and>
   map_option (\<lambda>t. length (messages t))
     (map_of (tickets (mgr (run closedRun newServer))) (TicketId 1003 1)) = Some 1 \<and>
   map_option (\<lambda>t. length (messages t))
     (map_of (tickets (mgr (fst (send_message ''s1'' (TicketId 1003 1) ''Hi'' 2000 ''m9''
         (run closedRun newServer))))) (TicketId 1003 1)) = Some 2 \<and>
   snd (send_message ''s1'' (TicketId 1003 1) ''Hi'' 2000 ''m9'' (run closedRun newServer)) =
     [(ToCustomer ''c1'', ChatResponse ''Hi'' ''agent'' ''response''),
      (ToSocket ''s1'', MessageSent (TicketId 1003 1) ''m9'' 2000)]"
    by (simp add: closedRun_def run_append run_helloRun)
       (simp add: helloServer_def deskManager_def helloTicket_def agentAnn_def
          update_ticket_status_def closeTicket_def send_message_def addMessage_def
          sameAgent_def set_delete_def Let_def)
  show ?thesis using a b by simp
qed

section \<open>An agent disconnects and comes back\<close>

subsection \<open>A closing stamp stays\<close>

lemma wasClosed_rewrite:
  assumes "wasClosed ts k" and "map_of ts k0 = Some t"
    and "closedAt t \<noteq> None \<longrightarrow> closedAt t' \<noteq> None"
  shows "wasClosed (AList.update k0 t' ts) k"
  using assms by (cases "k0 = k") (auto simp: wasClosed_def update_conv' split: option.splits)

lemma wasClosed_update_other:
  assumes "wasClosed ts k" and "k0 \<noteq> k"
  shows "wasClosed (AList.update k0 t' ts) k"
  using assms by (simp add: wasClosed_def update_conv')

lemma wasClosed_createTicket:
  assumes "keysOk m" and "wasClosed (tickets m) k"
  shows "wasClosed (tickets (snd (createTicket cid csid msg now mid m))) k"
proof -
  have "map_of (tickets m) (TicketId now (ticketCounter m)) = None" by (rule keysOk_fresh [OF assms(1)])
  moreover have "map_of (tickets m) k \<noteq> None"
    using assms(2) by (auto simp: wasClosed_def split: option.splits)
  ultimately have "TicketId now (ticketCounter m) \<noteq> k" by auto
  then show ?thesis unfolding createTicket_fields by (rule wasClosed_update_other [OF assms(2)])
qed

lemma wasClosed_addMessage:
  assumes "wasClosed (tickets m) k"
  shows "wasClosed (tickets (snd (addMessage k0 body sndr sid now mid m))) k"
proof (cases "map_of (tickets m) k0")
  case None
  then show ?thesis using assms by (simp add: addMessage_def)
next
  case (Some t)
  then show ?thesis by (simp add: addMessage_def Let_def wasClosed_rewrite [OF assms Some])
qed

lemma wasClosed_assignTicket:
  assumes "wasClosed (tickets m) k"
  shows "wasClosed (tickets (snd (assignTicket k0 a now m))) k"
proof (cases "map_of (tickets m) k0 = None \<or> map_of (agentSockets m) a = None")
  case True
  then show ?thesis using assms by (simp add: assignTicket_noop)
next
  case False
  then obtain t ag where t: "map_of (tickets m) k0 = Some t" and ag: "map_of (agentSockets m) a = Some ag"
    by auto
  show ?thesis
    unfolding assignTicket_fields(1) [OF t ag] by (rule wasClosed_rewrite [OF assms t]) simp
qed

lemma wasClosed_closeTicket:
  assumes "wasClosed (tickets m) k"
  shows "wasClosed (tickets (snd (closeTicket k0 by now m))) k"
proof (cases "map_of (tickets m) k0")
  case None
  then show ?thesis using assms by (simp add: closeTicket_noop)
next
  case (Some t)
  show ?thesis
    unfolding closeTicket_fields(1) [OF Some] by (rule wasClosed_rewrite [OF assms Some]) simp
qed

lemma closeTicket_stamps:
  assumes "map_of (tickets m) k = Some t"
  shows "wasClosed (tickets (snd (closeTicket k by now m))) k"
  unfolding closeTicket_fields(1) [OF assms] by (simp add: wasClosed_def update_conv')

lemma wasClosed_getOrCreateTicket:
  assumes "keysOk m" and "wasClosed (tickets m) k"
  shows "wasClosed (tickets (snd (getOrCreateTicket sid text now mid m))) k"
  by (cases "getTicketByCustomer sid m")
     (simp_all add: getOrCreateTicket_def wasClosed_createTicket [OF assms]
        wasClosed_addMessage [OF assms(2)])

lemma wasClosed_tryAssign:
  assumes "wasClosed (tickets m) k"
  shows "wasClosed (tickets (fst (tryAssign sid text ticket now m))) k"
  using assms by (simp add: tryAssign_mgr wasClosed_assignTicket split: option.splits)

lemma wasClosed_chat_message:
  assumes "keysOk (mgr sv)" and "wasClosed (tickets (mgr sv)) k"
  shows "wasClosed (tickets (mgr (fst (chat_message sid text cb now mid sv)))) k"
  unfolding chat_message_mgr
proof (rule wasClosed_tryAssign, rule wasClosed_getOrCreateTicket)
  show "keysOk (touchCustomer sid now (mgr sv))" using assms(1) by (simp add: keysOk_def)
  show "wasClosed (tickets (touchCustomer sid now (mgr sv))) k" using assms(2) by simp
qed

lemma wasClosed_send_message:
  assumes "wasClosed (tickets (mgr sv)) k"
  shows "wasClosed (tickets (mgr (fst (send_message sid k0 body now mid sv)))) k"
proof -
  have "wasClosed (tickets (snd (addMessage k0 body ''agent'' (map_of (socketAgent sv) sid) now mid (mgr sv)))) k"
    by (rule wasClosed_addMessage [OF assms])
  then show ?thesis
    using assms by (auto simp: send_message_def Let_def split: option.splits prod.splits)
qed

lemma wasClosed_update_ticket_status:
  assumes "wasClosed (tickets (mgr sv)) k"
  shows "wasClosed (tickets (mgr (fst (update_ticket_status sid k0 newStatus now sv)))) k"
proof (cases "map_of (tickets (mgr sv)) k0")
  case None
  then show ?thesis using assms by (simp add: update_ticket_status_def)
next
  case (Some t)
  note t = Some
  show ?thesis
  proof (cases "map_of (socketAgent sv) sid")
    case None
    then show ?thesis using assms t by (simp add: update_ticket_status_def)
  next
    case (Some agentId)
    let ?m1 = "(mgr sv)\<lparr>tickets :=
        AList.update k0 (t\<lparr>status := newStatus, updatedAt := now\<rparr>) (tickets (mgr sv))\<rparr>"
    have "wasClosed (AList.update k0 (t\<lparr>status := newStatus, updatedAt := now\<rparr>) (tickets (mgr sv))) k"
      by (rule wasClosed_rewrite [OF assms t]) simp
    then have m1: "wasClosed (tickets ?m1) k" by simp
    have m2: "wasClosed (tickets (snd (closeTicket k0 agentId now ?m1))) k"
      by (rule wasClosed_closeTicket [OF m1])
    show ?thesis
      using t Some m1 m2 assms
      by (cases "newStatus = ''closed''") (simp_all add: update_ticket_status_def Let_def)
  qed
qed

lemma wasClosed_get_ticket_details:
  assumes "wasClosed (tickets (mgr sv)) k"
  shows "wasClosed (tickets (mgr (fst (get_ticket_details sid k0 sv)))) k"
proof (cases "map_of (tickets (mgr sv)) k0")
  case None
  then show ?thesis using assms by (simp add: get_ticket_details_def)
next
  case (Some t)
  then show ?thesis
    using assms by (simp add: get_ticket_details_def Let_def wasClosed_rewrite [OF assms Some])
qed

lemma wasClosed_step:
  assumes "keysOk (mgr sv)" and "wasClosed (tickets (mgr sv)) k"
  shows "wasClosed (tickets (mgr (fst (step now mid e sv)))) k"
proof (cases e)
  case (ChatMessage sid body cb)
  then show ?thesis by (simp add: wasClosed_chat_message [OF assms])
next
  case (SendMessage sid k0 body)
  then show ?thesis by (simp add: wasClosed_send_message [OF assms(2)])
next
  case (UpdateTicketStatus sid k0 st)
  then show ?thesis by (simp add: wasClosed_update_ticket_status [OF assms(2)])
next
  case (GetTicketDetails sid k0)
  then show ?thesis by (simp add: wasClosed_get_ticket_details [OF assms(2)])
next
  case (CustomerConnection sid)
  then show ?thesis using assms(2) by (simp add: customer_connection_def Let_def)
next
  case (CustomerTypes sid b)
  then show ?thesis using assms(2) by (simp add: customer_typing_def split: option.splits)
next
  case (CustomerDisconnect sid)
  then show ?thesis using assms(2) by (simp add: customer_disconnect_def Let_def)
next
  case (AgentConnection sid)
  then show ?thesis using assms(2) by simp
next
  case (Authenticate sid a n d)
  then show ?thesis using assms(2) by (simp add: authenticate_def Let_def)
next
  case (AgentTypes sid k0 b)
  then show ?thesis using assms(2) by (simp add: agent_typing_def split: option.splits)
next
  case (UpdateStatus sid st)
  then show ?thesis using assms(2) by (simp add: update_status_def Let_def split: option.splits)
next
  case (AgentDisconnect sid)
  then show ?thesis using assms(2)
    by (simp add: agent_disconnect_def Let_def case_prod_unfold split: option.splits)
qed

lemma wasClosed_run:
  assumes "assignmentInvariant (mgr sv)" and "wasClosed (tickets (mgr sv)) k"
  shows "wasClosed (tickets (mgr (run evs sv))) k"
  using assms
proof (induction evs arbitrary: sv)
  case Nil
  then show ?case by simp
next
  case (Cons x evs)
  obtain now mid e where x: "x = (now, mid, e)" by (cases x) auto
  have ko: "keysOk (mgr sv)" using Cons.prems(1) by (simp add: assignmentInvariant_def)
  show ?case unfolding x run.simps
    by (rule Cons.IH [OF assignmentInvariant_step [OF Cons.prems(1)]
          wasClosed_step [OF ko Cons.prems(2)]])
qed

subsection \<open>A ticket leaves an agent's set only by being closed\<close>

lemma holdsTicket_assignTicket:
  assumes "holdsTicket (agentTickets m) a k"
  shows "holdsTicket (agentTickets (snd (assignTicket k0 a0 now m))) a k"
proof (cases "map_of (tickets m) k0 = None \<or> map_of (agentSockets m) a0 = None")
  case True
  then show ?thesis using assms by (simp add: assignTicket_noop)
next
  case False
  then obtain t ag where t: "map_of (tickets m) k0 = Some t" and ag: "map_of (agentSockets m) a0 = Some ag"
    by auto
  show ?thesis
    using assms unfolding holdsTicket_def assignTicket_fields(3) [OF t ag]
    by (auto simp: in_set_add split: option.splits)
qed

lemma holdsTicket_closeTicket:
  assumes "holdsTicket (agentTickets m) a k"
  shows "holdsTicket (agentTickets (snd (closeTicket k0 by now m))) a k \<or>
         wasClosed (tickets (snd (closeTicket k0 by now m))) k"
proof (cases "map_of (tickets m) k0")
  case None
  then show ?thesis using assms by (simp add: closeTicket_noop)
next
  case (Some t)
  show ?thesis
  proof (cases "k0 = k")
    case True
    then show ?thesis using closeTicket_stamps [OF Some] by simp
  next
    case False
    obtain ts where ts: "map_of (agentTickets m) a = Some ts" "k \<in> set ts"
      using assms by (auto simp: holdsTicket_def split: option.splits)
    from closeTicket_agentTickets [OF ts(1), of k0 "by" now]
    obtain ts' where "map_of (agentTickets (snd (closeTicket k0 by now m))) a = Some ts'"
        "set ts - {k0} \<subseteq> set ts'" by blast
    then have "holdsTicket (agentTickets (snd (closeTicket k0 by now m))) a k"
      using ts(2) False by (auto simp: holdsTicket_def)
    then show ?thesis by simp
  qed
qed

lemma agentTickets_addMessage [simp]:
  "agentTickets (snd (addMessage k body sndr sid now mid m)) = agentTickets m"
  by (simp add: addMessage_def Let_def split: option.splits)

lemma agentTickets_getOrCreateTicket [simp]:
  "agentTickets (snd (getOrCreateTicket sid text now mid m)) = agentTickets m"
  by (simp add: getOrCreateTicket_def createTicket_fields split: option.splits)

lemma holdsTicket_chat_message:
  assumes "holdsTicket (agentTickets (mgr sv)) a k"
  shows "holdsTicket (agentTickets (mgr (fst (chat_message sid text cb now mid sv)))) a k"
  using assms
  by (simp add: chat_message_mgr tryAssign_mgr holdsTicket_assignTicket split: option.splits)

lemma holdsTicket_update_ticket_status:
  assumes "holdsTicket (agentTickets (mgr sv)) a k"
  shows "holdsTicket (agentTickets (mgr (fst (update_ticket_status sid k0 newStatus now sv)))) a k \<or>
         wasClosed (tickets (mgr (fst (update_ticket_status sid k0 newStatus now sv)))) k"
proof (cases "map_of (tickets (mgr sv)) k0")
  case None
  then show ?thesis using assms by (simp add: update_ticket_status_def)
next
  case (Some t)
  note t = Some
  show ?thesis
  proof (cases "map_of (socketAgent sv) sid")
    case None
    then show ?thesis using assms t by (simp add: update_ticket_status_def)
  next
    case (Some agentId)
    let ?m1 = "(mgr sv)\<lparr>tickets :=
        AList.update k0 (t\<lparr>status := newStatus, updatedAt := now\<rparr>) (tickets (mgr sv))\<rparr>"
    have m1: "holdsTicket (agentTickets ?m1) a k" using assms by simp
    have m2: "holdsTicket (agentTickets (snd (closeTicket k0 agentId now ?m1))) a k \<or>
         wasClosed (tickets (snd (closeTicket k0 agentId now ?m1))) k"
      by (rule holdsTicket_closeTicket [OF m1])
    show ?thesis
      using t Some m2 assms
      by (cases "newStatus = ''closed''") (simp_all add: update_ticket_status_def Let_def)
  qed
qed

lemma holdsTicket_step:
  assumes "holdsTicket (agentTickets (mgr sv)) a k"
  shows "holdsTicket (agentTickets (mgr (fst (step now mid e sv)))) a k \<or>
         wasClosed (tickets (mgr (fst (step now mid e sv)))) k"
proof (cases e)
  case (ChatMessage sid body cb)
  then show ?thesis by (simp add: holdsTicket_chat_message [OF assms])
next
  case (SendMessage sid k0 body)
  then show ?thesis using assms
    by (simp add: send_message_def Let_def case_prod_unfold split: option.splits)
next
  case (UpdateTicketStatus sid k0 st)
  then show ?thesis using holdsTicket_update_ticket_status [OF assms] by simp
next
  case (GetTicketDetails sid k0)
  then show ?thesis using assms by (simp add: get_ticket_details_def Let_def split: option.splits)
next
  case (CustomerConnection sid)
  then show ?thesis using assms by (simp add: customer_connection_def Let_def)
next
  case (CustomerTypes sid b)
  then show ?thesis using assms by (simp add: customer_typing_def split: option.splits)
next
  case (CustomerDisconnect sid)
  then show ?thesis using assms by (simp add: customer_disconnect_def Let_def)
next
  case (AgentConnection sid)
  then show ?thesis using assms by simp
next
  case (Authenticate sid a0 n d)
  then show ?thesis using assms by (simp add: authenticate_def Let_def)
next
  case (AgentTypes sid k0 b)
  then show ?thesis using assms by (simp add: agent_typing_def split: option.splits)
next
  case (UpdateStatus sid st)
  then show ?thesis using assms by (simp add: update_status_def Let_def split: option.splits)
next
  case (AgentDisconnect sid)
  then show ?thesis using assms
    by (simp add: agent_disconnect_def Let_def case_prod_unfold split: option.splits)
qed

lemma holdsTicket_run:
  assumes "assignmentInvariant (mgr sv)" and "holdsTicket (agentTickets (mgr sv)) a k"
  shows "holdsTicket (agentTickets (mgr (run evs sv))) a k \<or>
         wasClosed (tickets (mgr (run evs sv))) k"
  using assms
proof (induction evs arbitrary: sv)
  case Nil
  then show ?case by simp
next
  case (Cons x evs)
  obtain now mid e where x: "x = (now, mid, e)" by (cases x) auto
  let ?sv = "fst (step now mid e sv)"
  have inv: "assignmentInvariant (mgr ?sv)" by (rule assignmentInvariant_step [OF Cons.prems(1)])
  from holdsTicket_step [OF Cons.prems(2), of now mid e]
  show ?case
  proof
    assume "holdsTicket (agentTickets (mgr ?sv)) a k"
    then show ?thesis unfolding x run.simps by (rule Cons.IH [OF inv])
  next
    assume "wasClosed (tickets (mgr ?sv)) k"
    then have "wasClosed (tickets (mgr (run evs ?sv))) k" by (rule wasClosed_run [OF inv])
    then show ?thesis unfolding x run.simps by simp
  qed
qed

subsection \<open>Disconnecting and authenticating again\<close>

lemma set_sortNewestFirst [simp]: "set (sortNewestFirst f xs) = set xs"
  by (simp add: sortNewestFirst_def)

lemma getAgentTickets_member:
  assumes "map_of (agentTickets m) aid = Some ts" and "tid \<in> set ts"
    and "map_of (tickets m) tid = Some t" and "isActive (status t)"
  shows "getTicketSummary t \<in> set (getAgentTickets aid m)"
  using assms by (auto simp: getAgentTickets_def Let_def isActive_def intro!: bexI[of _ tid])

lemma agent_disconnect_effect:
  assumes "map_of (socketAgent sv) sid = Some aid" and "aid \<noteq> []"
  shows "map_of (agentSockets (mgr (fst (agent_disconnect sid sv)))) aid = None"
    and "\<forall>info. map_of (agentSockets (mgr sv)) aid = Some info \<longrightarrow>
        snd (agent_disconnect sid sv) =
          [(BroadcastFrom sid, AgentStatusChange aid (agent_name info) ''offline'')]"
    and "map_of (agentSockets (mgr sv)) aid = None \<longrightarrow> snd (agent_disconnect sid sv) = []"
    and "tickets (mgr (fst (agent_disconnect sid sv))) = tickets (mgr sv)"
    and "agentTickets (mgr (fst (agent_disconnect sid sv))) = agentTickets (mgr sv)"
    and "ticketAssignments (mgr (fst (agent_disconnect sid sv))) = ticketAssignments (mgr sv)"
  using assms
  by (simp_all add: agent_disconnect_def Let_def delete_conv' split: option.splits prod.splits)

lemma authenticate_payload:
  assumes "aid \<noteq> []" and "agentName \<noteq> []"
  shows "\<exists>st. snd (authenticate sid aid agentName dept now sv) =
        [(ToSocket sid, AuthSuccess aid agentName dept (getAgentTickets aid (mgr sv)) st),
         (BroadcastFrom sid, AgentStatusChange aid agentName ''available'')]"
  using assms by (simp add: authenticate_def Let_def getAgentTickets_def)

text \<open>
  C7 (as amended): when the socket of an authenticated agent disconnects, the agent's
  entry is deleted from the registry \<open>agentSockets\<close>, so no record of the agent, with
  whatever status, remains there. The status \<open>offline\<close> is broadcast if the registry held
  an entry for the agent id, and nothing is emitted if it held none. The tickets, the
  \<open>agentTickets\<close> sets and the \<open>ticketAssignments\<close> entries are left as they were.
  Consequently, whatever events follow, when the same agent id authenticates again the
  \<open>auth_success\<close> payload carries \<open>getAgentTickets\<close> of that id, which holds the summary of
  every ticket that was in the agent's set at the disconnect, has never been closed
  and has status \<open>open\<close> or \<open>assigned\<close>.
\<close>

theorem agent_disconnect_keeps_assignments:
  assumes "map_of (socketAgent (run pre newServer)) sid = Some aid"
    and "aid \<noteq> []" and "agentName \<noteq> []"
  shows "map_of (agentSockets (mgr (fst (agent_disconnect sid (run pre newServer))))) aid = None \<and>
     (\<forall>info. map_of (agentSockets (mgr (run pre newServer))) aid = Some info \<longrightarrow>
        snd (agent_disconnect sid (run pre newServer)) =
          [(BroadcastFrom sid, AgentStatusChange aid (agent_name info) ''offline'')]) \<and>
     (map_of (agentSockets (mgr (run pre newServer))) aid = None \<longrightarrow>
        snd (agent_disconnect sid (run pre newServer)) = []) \<and>
     tickets (mgr (fst (agent_disconnect sid (run pre newServer)))) = tickets (mgr (run pre newServer)) \<and>
     agentTickets (mgr (fst (agent_disconnect sid (run pre newServer))))
       = agentTickets (mgr (run pre newServer)) \<and>
     ticketAssignments (mgr (fst (agent_disconnect sid (run pre newServer))))
       = ticketAssignments (mgr (run pre newServer)) \<and>
     (\<exists>st. snd (authenticate sid' aid agentName dept now
                  (run evs (fst (agent_disconnect sid (run pre newServer))))) =
        [(ToSocket sid',
            AuthSuccess aid agentName dept
              (getAgentTickets aid (mgr (run evs (fst (agent_disconnect sid (run pre newServer))))))
              st),
         (BroadcastFrom sid', AgentStatusChange aid agentName ''available'')]) \<and>
     (\<forall>tid t. holdsTicket (agentTickets (mgr (run pre newServer))) aid tid \<and>
         map_of (tickets (mgr (run evs (fst (agent_disconnect sid (run pre newServer)))))) tid = Some t \<and>
         closedAt t = None \<and> isActive (status t) \<longrightarrow>
         getTicketSummary t
           \<in> set (getAgentTickets aid (mgr (run evs (fst (agent_disconnect sid (run pre newServer)))))))"
proof -
  let ?sv = "run pre newServer"
  let ?sv1 = "fst (agent_disconnect sid ?sv)"
  let ?sv2 = "run evs ?sv1"
  note d = agent_disconnect_effect [OF assms(1,2)]
  have "assignmentInvariant (mgr (fst (step 0 [] (AgentDisconnect sid) ?sv)))"
    by (rule assignmentInvariant_step [OF assignmentInvariant_reachable])
  then have inv1: "assignmentInvariant (mgr ?sv1)" by simp
  have returned: "\<forall>tid t. holdsTicket (agentTickets (mgr ?sv)) aid tid \<and>
         map_of (tickets (mgr ?sv2)) tid = Some t \<and> closedAt t = None \<and> isActive (status t) \<longrightarrow>
         getTicketSummary t \<in> set (getAgentTickets aid (mgr ?sv2))"
  proof (intro allI impI, elim conjE)
    fix tid t
    assume held: "holdsTicket (agentTickets (mgr ?sv)) aid tid"
      and stored: "map_of (tickets (mgr ?sv2)) tid = Some t"
      and unclosed: "closedAt t = None" and active: "isActive (status t)"
    have "holdsTicket (agentTickets (mgr ?sv1)) aid tid" using held by (simp add: d(5))
    then have "holdsTicket (agentTickets (mgr ?sv2)) aid tid \<or> wasClosed (tickets (mgr ?sv2)) tid"
      by (rule holdsTicket_run [OF inv1])
    moreover have "\<not> wasClosed (tickets (mgr ?sv2)) tid"
      using stored unclosed by (simp add: wasClosed_def)
    ultimately obtain ts where "map_of (agentTickets (mgr ?sv2)) aid = Some ts" "tid \<in> set ts"
      by (auto simp: holdsTicket_def split: option.splits)
    then show "getTicketSummary t \<in> set (getAgentTickets aid (mgr ?sv2))"
      using stored active by (rule getAgentTickets_member)
  qed
  show ?thesis
    using d authenticate_payload [OF assms(2,3), of sid' dept now ?sv2] returned
    by (intro conjI) blast+
qed

lemma run_away:
  "run awayRun (fst (agent_disconnect ''s1'' (run twoAgentsRun newServer))) =
     \<lparr>mgr = \<lparr>tickets = [(TicketId 1003 1,
                helloTicket\<lparr>messages := messages helloTicket @
                    [\<lparr>msg_id = ''m10'', content = ''Still there?'', sender = ''customer'',
                      senderId = None, timestamp = 1010, read = False\<rparr>],
                  updatedAt := 1010\<rparr>)],
             customerSockets = [(''c1'', \<lparr>cust_id = ''c1'', cust_connectedAt = 1000,
                                          cust_lastActivity = 1010\<rparr>)],
             agentSockets = [(''A2'', agentBob\<lparr>connectedAt := 1005, lastActivity := 1011,
                                              agent_status := ''busy''\<rparr>)],
             ticketAssignments = [(TicketId 1003 1, ''A1'')],
             agentTickets = [(''A1'', [TicketId 1003 1])],
             ticketCounter = 2\<rparr>,
      socketAgent = [(''s2'', ''A2'')]\<rparr>"
  by (simp add: run_twoAgentsRun awayRun_def helloServer_def deskManager_def helloTicket_def
        agentAnn_def agentBob_def handler_defs Let_def)

lemma sameIdRun_facts:
  "map_of (socketAgent (run sameIdRun newServer)) ''s3'' = Some ''A1''"
  "map_of (agentSockets (mgr (run sameIdRun newServer))) ''A1'' = None"
  by (simp_all add: sameIdRun_def run_append run_helloRun helloServer_def deskManager_def
        authenticate_def agent_disconnect_def Let_def)

theorem agent_disconnect_keeps_assignments_witness:
  "map_of (socketAgent (run twoAgentsRun newServer)) ''s1'' = Some ''A1'' \<and>
   ''A1'' \<noteq> [] \<and> ''Ann'' \<noteq> [] \<and>
   map_of (agentSockets (mgr (run twoAgentsRun newServer))) ''A1'' = Some agentAnn \<and>
   snd (agent_disconnect ''s1'' (run twoAgentsRun newServer)) =
     [(BroadcastFrom ''s1'', AgentStatusChange ''A1'' ''Ann'' ''offline'')] \<and>
   map_of (agentSockets (mgr (fst (agent_disconnect ''s1'' (run twoAgentsRun newServer))))) ''A1'' = None \<and>
   holdsTicket (agentTickets (mgr (run twoAgentsRun newServer))) ''A1'' (TicketId 1003 1) \<and>
   (\<exists>t. map_of (tickets (mgr (run awayRun (fst (agent_disconnect ''s1'' (run twoAgentsRun newServer))))))
          (TicketId 1003 1) = Some t \<and>
        closedAt t = None \<and> isActive (status t) \<and> length (messages t) = 2 \<and>
        getTicketSummary t \<in> set (getAgentTickets ''A1''
          (mgr (run awayRun (fst (agent_disconnect ''s1'' (run twoAgentsRun newServer))))))) \<and>
   map_of (socketAgent (run sameIdRun newServer)) ''s3'' = Some ''A1'' \<and>
   map_of (agentSockets (mgr (run sameIdRun newServer))) ''A1'' = None \<and>
   snd (agent_disconnect ''s3'' (run sameIdRun newServer)) = []"
proof -
  let ?t = "helloTicket\<lparr>messages := messages helloTicket @
                    [\<lparr>msg_id = ''m10'', content = ''Still there?'', sender = ''customer'',
                      senderId = None, timestamp = 1010, read = False\<rparr>],
                  updatedAt := 1010\<rparr>"
  have h1: "map_of (socketAgent (run twoAgentsRun newServer)) ''s1'' = Some ''A1''"
    by (simp add: run_twoAgentsRun authenticate_def Let_def helloServer_def)
  have h2: "''A1'' \<noteq> []" and h3: "''Ann'' \<noteq> []" by simp_all
  have h4: "map_of (agentSockets (mgr (run twoAgentsRun newServer))) ''A1'' = Some agentAnn"
    by (simp add: run_twoAgentsRun authenticate_def Let_def helloServer_def deskManager_def)
  have h5: "agent_name agentAnn = ''Ann''" by (simp add: agentAnn_def)
  have h6: "holdsTicket (agentTickets (mgr (run twoAgentsRun newServer))) ''A1'' (TicketId 1003 1)"
    by (simp add: run_twoAgentsRun authenticate_def Let_def helloServer_def deskManager_def
          holdsTicket_def)
  have h7: "map_of (tickets (mgr (run awayRun (fst (agent_disconnect ''s1'' (run twoAgentsRun newServer))))))
          (TicketId 1003 1) = Some ?t"
    by (simp add: run_away)
  have h8: "closedAt ?t = None" "isActive (status ?t)" "length (messages ?t) = 2"
    by (simp_all add: helloTicket_def isActive_def)
  note w1 = agent_disconnect_keeps_assignments [OF h1 h2 h3, of "''s9''" "[]" 1020 awayRun]
  note w2 = agent_disconnect_keeps_assignments [OF sameIdRun_facts(1) h2 h3, of "''s9''" "[]" 1020 "[]"]
  have r: "getTicketSummary ?t \<in> set (getAgentTickets ''A1''
          (mgr (run awayRun (fst (agent_disconnect ''s1'' (run twoAgentsRun newServer))))))"
    using w1 h6 h7 h8 by blast
  have o: "snd (agent_disconnect ''s1'' (run twoAgentsRun newServer)) =
     [(BroadcastFrom ''s1'', AgentStatusChange ''A1'' ''Ann'' ''offline'')]"
    using w1 h4 h5 by simp
  have n: "map_of (agentSockets (mgr (fst (agent_disconnect ''s1'' (run twoAgentsRun newServer))))) ''A1'' = None"
    using w1 by blast
  have e: "snd (agent_disconnect ''s3'' (run sameIdRun newServer)) = []"
    using w2 sameIdRun_facts(2) by blast
  show ?thesis
    using h1 h2 h3 h4 h6 h7 h8 r o n e sameIdRun_facts by blast
qed

text \<open>
  The claim as stated fails where it says that the agent's recorded status becomes
  \<open>offline\<close> and that only the connection reference is cleared: after Ann's socket
  disconnects the registry has no entry for her at all.
\<close>

theorem agent_disconnect_status_counterexample:
  "map_of (socketAgent deskServer) ''s1'' = Some ''A1'' \<and>
   map_of (agentSockets (mgr deskServer)) ''A1'' = Some agentAnn \<and>
   map_of (agentSockets (mgr (fst (agent_disconnect ''s1'' deskServer)))) ''A1'' = None"
  by (simp add: agent_disconnect_def deskServer_def deskManager_def Let_def)

section \<open>The clock and the stamp of the last update\<close>

lemma stampsBelow_mono:
  assumes "stampsBelow c ts" and "c \<le> c'"
  shows "stampsBelow c' ts"
  using assms unfolding stampsBelow_def by (meson order_trans)

lemma stampsBelow_update:
  assumes "stampsBelow c ts" and "c \<le> c'" and "updatedAt t' \<le> c'"
  shows "stampsBelow c' (AList.update k t' ts)"
  unfolding stampsBelow_def
proof (intro allI impI)
  fix k' u assume h: "map_of (AList.update k t' ts) k' = Some u"
  show "updatedAt u \<le> c'"
  proof (cases "k' = k")
    case True
    then have "u = t'" using h by (simp add: update_conv')
    then show ?thesis using assms(3) by simp
  next
    case False
    then have "map_of ts k' = Some u" using h by (simp add: update_conv')
    then have "updatedAt u \<le> c" using assms(1) unfolding stampsBelow_def by blast
    then show ?thesis using assms(2) by simp
  qed
qed

lemma createTicket_updatedAt: "updatedAt (fst (createTicket cid csid msg now mid m)) = now"
  by (simp add: createTicket_def generateTicketId_def Let_def)

lemma stampsBelow_createTicket:
  assumes "stampsBelow c (tickets m)" and "c \<le> now"
  shows "stampsBelow now (tickets (snd (createTicket cid csid msg now mid m)))"
  unfolding createTicket_fields
  by (rule stampsBelow_update [OF assms]) (simp add: createTicket_updatedAt)

lemma stampsBelow_addMessage:
  assumes "stampsBelow c (tickets m)" and "c \<le> now"
  shows "stampsBelow now (tickets (snd (addMessage k body sndr sid now mid m)))"
proof (cases "map_of (tickets m) k")
  case None
  then show ?thesis using stampsBelow_mono [OF assms] by (simp add: addMessage_def)
next
  case (Some t)
  have "stampsBelow now (AList.update k (t\<lparr>messages := messages t @
      [\<lparr>msg_id = mid, content = body, sender = sndr, senderId = sid, timestamp = now, read = False\<rparr>],
      updatedAt := now\<rparr>) (tickets m))"
    by (rule stampsBelow_update [OF assms]) simp
  then show ?thesis using Some by (simp add: addMessage_def Let_def)
qed

lemma stampsBelow_assignTicket:
  assumes "stampsBelow c (tickets m)" and "c \<le> now"
  shows "stampsBelow now (tickets (snd (assignTicket k a now m)))"
proof (cases "map_of (tickets m) k = None \<or> map_of (agentSockets m) a = None")
  case True
  then show ?thesis using stampsBelow_mono [OF assms] by (simp add: assignTicket_noop)
next
  case False
  then obtain t ag where t: "map_of (tickets m) k = Some t" and ag: "map_of (agentSockets m) a = Some ag"
    by auto
  show ?thesis
    unfolding assignTicket_fields(1) [OF t ag]
    by (rule stampsBelow_update [OF assms]) simp
qed

lemma stampsBelow_closeTicket:
  assumes "stampsBelow c (tickets m)" and "c \<le> now"
  shows "stampsBelow now (tickets (snd (closeTicket k by now m)))"
proof (cases "map_of (tickets m) k")
  case None
  then show ?thesis using stampsBelow_mono [OF assms] by (simp add: closeTicket_noop)
next
  case (Some t)
  show ?thesis
    unfolding closeTicket_fields(1) [OF Some]
    by (rule stampsBelow_update [OF assms]) simp
qed

lemma stampsBelow_getOrCreateTicket:
  assumes "stampsBelow c (tickets m)" and "c \<le> now"
  shows "stampsBelow now (tickets (snd (getOrCreateTicket sid text now mid m)))"
  by (cases "getTicketByCustomer sid m")
     (simp_all add: getOrCreateTicket_def stampsBelow_createTicket [OF assms]
        stampsBelow_addMessage [OF assms])

lemma stampsBelow_tryAssign:
  assumes "stampsBelow now (tickets m)"
  shows "stampsBelow now (tickets (fst (tryAssign sid text ticket now m)))"
proof -
  have "stampsBelow now (tickets (snd (assignTicket (ticket_id ticket) a now m)))" for a
    by (rule stampsBelow_assignTicket [OF assms]) simp
  then show ?thesis using assms by (simp add: tryAssign_mgr split: option.splits)
qed

lemma stampsBelow_chat_message:
  assumes "stampsBelow c (tickets (mgr sv))" and "c \<le> now"
  shows "stampsBelow now (tickets (mgr (fst (chat_message sid text cb now mid sv))))"
  unfolding chat_message_mgr
proof (rule stampsBelow_tryAssign, rule stampsBelow_getOrCreateTicket)
  show "stampsBelow c (tickets (touchCustomer sid now (mgr sv)))" using assms(1) by simp
  show "c \<le> now" by (rule assms(2))
qed

lemma stampsBelow_send_message:
  assumes "stampsBelow c (tickets (mgr sv))" and "c \<le> now"
  shows "stampsBelow now (tickets (mgr (fst (send_message sid k body now mid sv))))"
proof -
  have "stampsBelow now (tickets (snd (addMessage k body ''agent'' (map_of (socketAgent sv) sid) now mid (mgr sv))))"
    by (rule stampsBelow_addMessage [OF assms])
  then show ?thesis
    using stampsBelow_mono [OF assms]
    by (auto simp: send_message_def Let_def split: option.splits prod.splits)
qed

lemma stampsBelow_update_ticket_status:
  assumes "stampsBelow c (tickets (mgr sv))" and "c \<le> now"
  shows "stampsBelow now (tickets (mgr (fst (update_ticket_status sid k newStatus now sv))))"
proof (cases "map_of (tickets (mgr sv)) k")
  case None
  then show ?thesis using stampsBelow_mono [OF assms] by (simp add: update_ticket_status_def)
next
  case (Some t)
  note t = Some
  show ?thesis
  proof (cases "map_of (socketAgent sv) sid")
    case None
    then show ?thesis using stampsBelow_mono [OF assms] t by (simp add: update_ticket_status_def)
  next
    case (Some agentId)
    let ?m1 = "(mgr sv)\<lparr>tickets :=
        AList.update k (t\<lparr>status := newStatus, updatedAt := now\<rparr>) (tickets (mgr sv))\<rparr>"
    have "stampsBelow now (AList.update k (t\<lparr>status := newStatus, updatedAt := now\<rparr>) (tickets (mgr sv)))"
      by (rule stampsBelow_update [OF assms]) simp
    then have m1: "stampsBelow now (tickets ?m1)" by simp
    have m2: "stampsBelow now (tickets (snd (closeTicket k agentId now ?m1)))"
      by (rule stampsBelow_closeTicket [OF m1]) simp
    show ?thesis
      using t Some m1 m2 stampsBelow_mono [OF assms]
      by (cases "newStatus = ''closed''") (simp_all add: update_ticket_status_def Let_def)
  qed
qed

lemma stampsBelow_get_ticket_details:
  assumes "stampsBelow c (tickets (mgr sv))" and "c \<le> now"
  shows "stampsBelow now (tickets (mgr (fst (get_ticket_details sid k sv))))"
proof (cases "map_of (tickets (mgr sv)) k")
  case None
  then show ?thesis using stampsBelow_mono [OF assms] by (simp add: get_ticket_details_def)
next
  case (Some t)
  have "updatedAt t \<le> c" using assms(1) Some unfolding stampsBelow_def by blast
  then have "stampsBelow now (AList.update k
      (t\<lparr>messages := map (\<lambda>msg. if sender msg = ''customer'' then msg\<lparr>read := True\<rparr> else msg)
            (messages t)\<rparr>) (tickets (mgr sv)))"
    using assms(2) by (intro stampsBelow_update [OF assms]) simp
  then show ?thesis
    using Some stampsBelow_mono [OF assms] by (simp add: get_ticket_details_def Let_def)
qed

lemma stampsBelow_step:
  assumes "stampsBelow c (tickets (mgr sv))" and "c \<le> now"
  shows "stampsBelow now (tickets (mgr (fst (step now mid e sv))))"
proof (cases e)
  case (ChatMessage sid body cb)
  then show ?thesis by (simp add: stampsBelow_chat_message [OF assms])
next
  case (SendMessage sid k body)
  then show ?thesis by (simp add: stampsBelow_send_message [OF assms])
next
  case (UpdateTicketStatus sid k st)
  then show ?thesis by (simp add: stampsBelow_update_ticket_status [OF assms])
next
  case (GetTicketDetails sid k)
  then show ?thesis by (simp add: stampsBelow_get_ticket_details [OF assms])
next
  case (CustomerConnection sid)
  then show ?thesis using stampsBelow_mono [OF assms] by (simp add: customer_connection_def Let_def)
next
  case (CustomerTypes sid b)
  then show ?thesis using stampsBelow_mono [OF assms]
    by (simp add: customer_typing_def split: option.splits)
next
  case (CustomerDisconnect sid)
  then show ?thesis using stampsBelow_mono [OF assms] by (simp add: customer_disconnect_def Let_def)
next
  case (AgentConnection sid)
  then show ?thesis using stampsBelow_mono [OF assms] by simp
next
  case (Authenticate sid a n d)
  then show ?thesis using stampsBelow_mono [OF assms] by (simp add: authenticate_def Let_def)
next
  case (AgentTypes sid k b)
  then show ?thesis using stampsBelow_mono [OF assms]
    by (simp add: agent_typing_def split: option.splits)
next
  case (UpdateStatus sid st)
  then show ?thesis using stampsBelow_mono [OF assms]
    by (simp add: update_status_def Let_def split: option.splits)
next
  case (AgentDisconnect sid)
  then show ?thesis using stampsBelow_mono [OF assms]
    by (simp add: agent_disconnect_def Let_def case_prod_unfold split: option.splits)
qed

lemma stampsBelow_run:
  assumes "stampsBelow c (tickets (mgr sv))" and "sorted (c # map fst evs @ [now])"
  shows "stampsBelow now (tickets (mgr (run evs sv)))"
  using assms
proof (induction evs arbitrary: c sv)
  case Nil
  then show ?case by (simp add: stampsBelow_mono)
next
  case (Cons x evs)
  obtain r mid e where x: "x = (r, mid, e)" by (cases x) auto
  have cr: "c \<le> r" and rest: "sorted (r # map fst evs @ [now])"
    using Cons.prems(2) unfolding x by simp_all
  have "stampsBelow r (tickets (mgr (fst (step r mid e sv))))"
    by (rule stampsBelow_step [OF Cons.prems(1) cr])
  then show ?case unfolding x run.simps using rest by (rule Cons.IH)
qed

lemma stampsBelow_reachable:
  assumes "sorted (map fst evs @ [now])"
  shows "stampsBelow now (tickets (mgr (run evs newServer)))"
proof (rule stampsBelow_run)
  show "stampsBelow 0 (tickets (mgr newServer))"
    by (simp add: stampsBelow_def newServer_def newManager_def)
  show "sorted (0 # map fst evs @ [now])" using assms by simp
qed

text \<open>
  C4 (as amended): \<open>addMessage\<close> on an id that is not a key of the tickets map returns
  \<open>null\<close> and leaves the manager as it was. On a ticket of the map it returns the message
  it built from its arguments, the ticket's messages are the old ones followed by that
  message (one more than before, the new one last), and the ticket's \<open>updatedAt\<close> becomes
  the clock reading of the call. That reading is not below the old \<open>updatedAt\<close> in every
  state reached by events whose clock readings, followed by the reading of the call,
  never decrease.
\<close>

theorem addMessage_appends:
  "(map_of (tickets m) tid = None \<longrightarrow> addMessage tid text sndr sid now mid m = (None, m)) \<and>
   (\<forall>t. map_of (tickets m) tid = Some t \<longrightarrow>
      (\<exists>msg t'. fst (addMessage tid text sndr sid now mid m) = Some msg \<and>
         map_of (tickets (snd (addMessage tid text sndr sid now mid m))) tid = Some t' \<and>
         content msg = text \<and> sender msg = sndr \<and> senderId msg = sid \<and>
         messages t' = messages t @ [msg] \<and>
         length (messages t') = length (messages t) + 1 \<and>
         last (messages t') = msg \<and>
         updatedAt t' = now)) \<and>
   (sorted (map fst evs @ [now]) \<longrightarrow>
      (\<forall>t. map_of (tickets (mgr (run evs newServer))) tid = Some t \<longrightarrow>
         (\<exists>t'. map_of (tickets (snd (addMessage tid text sndr sid now mid (mgr (run evs newServer)))))
                  tid = Some t' \<and>
               updatedAt t \<le> updatedAt t')))"
proof (intro conjI impI allI)
  fix t assume srt: "sorted (map fst evs @ [now])"
    and t: "map_of (tickets (mgr (run evs newServer))) tid = Some t"
  have "updatedAt t \<le> now"
    using stampsBelow_reachable [OF srt] t unfolding stampsBelow_def by blast
  then show "\<exists>t'. map_of (tickets (snd (addMessage tid text sndr sid now mid (mgr (run evs newServer)))))
                  tid = Some t' \<and> updatedAt t \<le> updatedAt t'"
    using t by (simp add: addMessage_def Let_def update_conv')
qed (simp_all add: addMessage_def Let_def update_conv')

theorem addMessage_appends_witness:
  "map_of (tickets deskManager) (TicketId 9 9) = None \<and>
   addMessage (TicketId 9 9) ''Hi'' ''agent'' (Some ''A1'') 2000 ''m9'' deskManager = (None, deskManager) \<and>
   map_of (tickets deskManager) (TicketId 1003 1) = Some helloTicket \<and>
   (\<exists>msg t'. fst (addMessage (TicketId 1003 1) ''Hi'' ''agent'' (Some ''A1'') 2000 ''m9'' deskManager) = Some msg \<and>
      map_of (tickets (snd (addMessage (TicketId 1003 1) ''Hi'' ''agent'' (Some ''A1'') 2000 ''m9'' deskManager)))
        (TicketId 1003 1) = Some t' \<and>
      length (messages t') = 2 \<and> last (messages t') = msg \<and> content msg = ''Hi'' \<and>
      updatedAt t' = 2000) \<and>
   sorted (map fst helloRun @ [2000]) \<and>
   map_of (tickets (mgr (run helloRun newServer))) (TicketId 1003 1) = Some helloTicket \<and>
   updatedAt helloTicket = 1003 \<and>
   (\<exists>t'. map_of (tickets (snd (addMessage (TicketId 1003 1) ''Hi'' ''agent'' (Some ''A1'') 2000 ''m9''
              (mgr (run helloRun newServer))))) (TicketId 1003 1) = Some t' \<and>
      updatedAt helloTicket \<le> updatedAt t')"
proof -
  have h1: "map_of (tickets deskManager) (TicketId 9 9) = None"
    and h2: "map_of (tickets deskManager) (TicketId 1003 1) = Some helloTicket"
    by (simp_all add: deskManager_def)
  have h3: "sorted (map fst helloRun @ [2000])" by (simp add: helloRun_def)
  have h4: "map_of (tickets (mgr (run helloRun newServer))) (TicketId 1003 1) = Some helloTicket"
    by (simp add: run_helloRun helloServer_def deskManager_def)
  have h5: "updatedAt helloTicket = 1003" "length (messages helloTicket) = 1"
    by (simp_all add: helloTicket_def)
  show ?thesis
    using h1 h2 h3 h4 h5
      addMessage_appends [of deskManager "TicketId 9 9" "''Hi''" "''agent''" "Some ''A1''" 2000 "''m9''" helloRun]
      addMessage_appends [of deskManager "TicketId 1003 1" "''Hi''" "''agent''" "Some ''A1''" 2000 "''m9''" helloRun]
    by (auto simp: numeral_2_eq_2)
qed

text \<open>
  The claim as stated fails when the clock has gone back: the ticket was last stamped
  at 1003, the call reads 5, and \<open>updatedAt\<close> drops to 5.
\<close>

theorem clock_set_back_counterexample:
  "map_of (tickets deskManager) (TicketId 1003 1) = Some helloTicket \<and>
   updatedAt helloTicket = 1003 \<and>
   map_option updatedAt
     (map_of (tickets (snd (addMessage (TicketId 1003 1) ''Hi'' ''agent'' (Some ''A1'') 5 ''m9'' deskManager)))
        (TicketId 1003 1)) = Some 5"
  by (simp add: deskManager_def helloTicket_def addMessage_def Let_def)

end
